(* ===== verification/Prelude.thy ===== *)
theory Prelude
  imports Main "HOL-Library.Multiset"
begin

text \<open>
  Shared vocabulary of the development: the named theorem collections, the result type of code
  that may throw, and generic facts on lists, association lists and sorting that several
  components need. Nothing here is about one source file.
\<close>

named_theorems js_num \<open>evaluation of JavaScript number operations\<close>
named_theorems session_simps \<open>effect of the session operations on the fields of the state\<close>
named_theorems frame_simps \<open>fields an operation leaves alone\<close>

section \<open>Errors\<close>

text \<open>The exceptions the modelled code can raise.\<close>

datatype js_error =
    TypeError string        \<comment> \<open>a property of \<open>undefined\<close> or \<open>null\<close> is read\<close>
  | ReferenceError string   \<comment> \<open>an identifier that is not bound is evaluated\<close>
  | Thrown string           \<comment> \<open>an explicit \<open>throw\<close>\<close>

section \<open>Lists\<close>

text \<open>\<open>Array.prototype.indexOf\<close> on values compared by identity; \<open>None\<close> stands for \<open>-1\<close>.\<close>

fun index_of :: "'a \<Rightarrow> 'a list \<Rightarrow> nat option" where
  "index_of x [] = None"
| "index_of x (y # ys) = (if x = y then Some 0 else map_option Suc (index_of x ys))"

lemma index_of_None [simp]: "index_of x xs = None \<longleftrightarrow> x \<notin> set xs"
  by (induction xs) auto

lemma index_of_SomeD: "index_of x xs = Some i \<Longrightarrow> i < length xs \<and> xs ! i = x"
  by (induction xs arbitrary: i) (auto split: if_splits)

lemma index_of_first: "index_of x xs = Some i \<Longrightarrow> j < i \<Longrightarrow> xs ! j \<noteq> x"
proof (induction xs arbitrary: i j)
  case Nil
  then show ?case by simp
next
  case (Cons y ys)
  then show ?case by (cases j) (auto split: if_splits)
qed

lemma index_of_mem: "x \<in> set xs \<Longrightarrow> \<exists>i. index_of x xs = Some i"
  by (metis index_of_None option.exhaust)

text \<open>\<open>Array.prototype.splice(i, 1)\<close> for an index inside the array.\<close>

definition splice1 :: "nat \<Rightarrow> 'a list \<Rightarrow> 'a list" where
  "splice1 i xs = take i xs @ drop (Suc i) xs"

lemma splice1_0 [simp]: "splice1 0 (x # xs) = xs"
  by (simp add: splice1_def)

lemma splice1_Suc [simp]: "splice1 (Suc i) (x # xs) = x # splice1 i xs"
  by (simp add: splice1_def)

lemma splice1_index_of: "index_of x xs = Some i \<Longrightarrow> splice1 i xs = remove1 x xs"
  by (induction xs arbitrary: i) (auto split: if_splits)

lemma length_splice1: "i < length xs \<Longrightarrow> length (splice1 i xs) = length xs - 1"
  by (simp add: splice1_def)

section \<open>Insertion-ordered objects\<close>

text \<open>
  A JavaScript object used as a dictionary with string keys that are not array indices: property
  enumeration follows insertion order, so the object is an association list with distinct keys.
\<close>

type_synonym 'v obj = "(string \<times> 'v) list"

fun obj_put :: "'k \<Rightarrow> 'v \<Rightarrow> ('k \<times> 'v) list \<Rightarrow> ('k \<times> 'v) list" where
  "obj_put k v [] = [(k, v)]"
| "obj_put k v ((k', v') # o1) = (if k = k' then (k, v) # o1 else (k', v') # obj_put k v o1)"

lemma map_of_obj_put [simp]: "map_of (obj_put k v ob) = (map_of ob)(k \<mapsto> v)"
  by (induction ob) (auto simp: fun_eq_iff)

lemma keys_obj_put: "fst ` set (obj_put k v ob) = insert k (fst ` set ob)"
  by (induction k v ob rule: obj_put.induct) auto

lemma distinct_obj_put: "distinct (map fst ob) \<Longrightarrow> distinct (map fst (obj_put k v ob))"
  by (induction k v ob rule: obj_put.induct) (auto simp: keys_obj_put)

lemma set_obj_put: "distinct (map fst ob) \<Longrightarrow>
  set (obj_put k v ob) = insert (k, v) {p \<in> set ob. fst p \<noteq> k}"
  by (induction k v ob rule: obj_put.induct) (force simp: image_iff)+

lemma obj_put_fresh: "k \<notin> fst ` set ob \<Longrightarrow> obj_put k v ob = ob @ [(k, v)]"
  by (induction ob) auto

end
