(* ===== verification/Fakemeteor.thy ===== *)
theory Fakemeteor
  imports Prelude
begin

text \<open>
  \<open>web/client/compatibility/fakemeteor.js\<close>: the reactive engine under the whole client. A
  function given to \<open>Deps.autorun\<close> runs once while \<open>Session.get\<close> records the keys it reads; from
  then on \<open>Session.set\<close> of one of these keys queues it, and a zero-delay browser timer runs the
  queue (\<open>Session._process\<close>).

  The state holds the fields of the two JavaScript objects and the armed timers of the browser.
  Functions are compared by identity in the source (\<open>indexOf\<close>), so they are names of a type
  \<open>'f\<close> here, and a parameter \<open>body\<close> says what running one does: a new state, and the error
  if it throws. The record is extensible: the client's own state extends it.
\<close>

section \<open>State\<close>

record ('f, 'v) meteor =
  mdeps :: "string \<Rightarrow> 'f list"        \<comment> \<open>\<open>Deps._deps\<close>, an absent key as the empty list\<close>
  mpend :: "'f list"                   \<comment> \<open>\<open>Session._pend\<close>\<close>
  mtimeout :: "nat option"             \<comment> \<open>\<open>Session._pendTimeout\<close>\<close>
  mtrack :: "string list option"       \<comment> \<open>\<open>Session._track\<close>\<close>
  msession :: "string \<Rightarrow> 'v option"   \<comment> \<open>\<open>Session._session\<close>, \<open>None\<close> for \<open>undefined\<close>\<close>
  timers :: "nat list"                 \<comment> \<open>armed browser timers whose callback is \<open>Session._process\<close>\<close>
  next_timer :: nat                    \<comment> \<open>the id \<open>window.setTimeout\<close> returns next\<close>

type_synonym ('f, 'v, 'z) body = "'f \<Rightarrow> ('f, 'v, 'z) meteor_scheme \<Rightarrow> ('f, 'v, 'z) meteor_scheme \<times> js_error option"

section \<open>Session and Deps\<close>

definition clear_timeout :: "nat option \<Rightarrow> ('f, 'v, 'z) meteor_scheme \<Rightarrow> ('f, 'v, 'z) meteor_scheme" where
  "clear_timeout t s = (case t of None \<Rightarrow> s | Some i \<Rightarrow> s\<lparr>timers := removeAll i (timers s)\<rparr>)"

definition set_timeout :: "('f, 'v, 'z) meteor_scheme \<Rightarrow> nat \<times> ('f, 'v, 'z) meteor_scheme" where
  "set_timeout s = (next_timer s,
     s\<lparr>timers := timers s @ [next_timer s], next_timer := Suc (next_timer s)\<rparr>)"

definition session_get :: "string \<Rightarrow> bool \<Rightarrow> ('f, 'v, 'z) meteor_scheme \<Rightarrow> 'v option \<times> ('f, 'v, 'z) meteor_scheme" where
  "session_get name donttrack s =
     (let s = (case mtrack s of Some tr \<Rightarrow> if donttrack then s else s\<lparr>mtrack := Some (tr @ [name])\<rparr>
                              | None \<Rightarrow> s)
      in (msession s name, s))"

text \<open>One round of the loop in \<open>Session.set\<close>.\<close>

definition pend_one :: "'f \<Rightarrow> ('f, 'v, 'z) meteor_scheme \<Rightarrow> ('f, 'v, 'z) meteor_scheme" where
  "pend_one fxn s =
     (let s = (if index_of fxn (mpend s) = None then s\<lparr>mpend := mpend s @ [fxn]\<rparr> else s);
          s = clear_timeout (mtimeout s) s;
          (t, s) = set_timeout s
      in s\<lparr>mtimeout := Some t\<rparr>)"

definition session_set :: "string \<Rightarrow> 'v option \<Rightarrow> ('f, 'v, 'z) meteor_scheme \<Rightarrow> ('f, 'v, 'z) meteor_scheme" where
  "session_set name data s =
     (let s = s\<lparr>msession := (msession s)(name := data)\<rparr> in fold pend_one (mdeps s name) s)"

definition session_setDefault :: "string \<Rightarrow> 'v option \<Rightarrow> ('f, 'v, 'z) meteor_scheme \<Rightarrow> ('f, 'v, 'z) meteor_scheme" where
  "session_setDefault name data s =
     (let (v, s) = session_get name False s in if v = None then session_set name data s else s)"

text \<open>The loop of \<open>Session._process\<close>; an exception ends it.\<close>

fun run_pending :: "('f, 'v, 'z) body \<Rightarrow> 'f list \<Rightarrow> ('f, 'v, 'z) meteor_scheme \<Rightarrow> ('f, 'v, 'z) meteor_scheme \<times> js_error option" where
  "run_pending body [] s = (s, None)"
| "run_pending body (f # fs) s =
     (case body f s of (s', None) \<Rightarrow> run_pending body fs s' | (s', Some e) \<Rightarrow> (s', Some e))"

definition session_process :: "('f, 'v, 'z) body \<Rightarrow> ('f, 'v, 'z) meteor_scheme \<Rightarrow> ('f, 'v, 'z) meteor_scheme \<times> js_error option" where
  "session_process body s = run_pending body (mpend s) (s\<lparr>mpend := []\<rparr>)"

text \<open>The browser fires an armed timer: it is disarmed and its callback runs.\<close>

definition fire_timer :: "('f, 'v, 'z) body \<Rightarrow> nat \<Rightarrow> ('f, 'v, 'z) meteor_scheme \<Rightarrow> ('f, 'v, 'z) meteor_scheme \<times> js_error option" where
  "fire_timer body t s = session_process body (s\<lparr>timers := removeAll t (timers s)\<rparr>)"

definition add_dep :: "'f \<Rightarrow> string \<Rightarrow> (string \<Rightarrow> 'f list) \<Rightarrow> (string \<Rightarrow> 'f list)" where
  "add_dep fxn k d = d(k := d k @ [fxn])"

definition deps_autorun :: "('f, 'v, 'z) body \<Rightarrow> 'f \<Rightarrow> ('f, 'v, 'z) meteor_scheme \<Rightarrow> ('f, 'v, 'z) meteor_scheme \<times> js_error option" where
  "deps_autorun body fxn s =
     (case body fxn (s\<lparr>mtrack := Some []\<rparr>) of
        (s', Some e) \<Rightarrow> (s', Some e)
      | (s', None) \<Rightarrow>
          (let tracked = (case mtrack s' of Some tr \<Rightarrow> tr | None \<Rightarrow> [])
           in (s'\<lparr>mtrack := None, mdeps := fold (add_dep fxn) tracked (mdeps s')\<rparr>, None)))"

text \<open>Several reads in a row, as at the head of many client functions.\<close>

fun session_gets :: "string list \<Rightarrow> ('f, 'v, 'z) meteor_scheme \<Rightarrow> 'v option list \<times> ('f, 'v, 'z) meteor_scheme" where
  "session_gets [] s = ([], s)"
| "session_gets (k # ks) s =
     (let (v, s) = session_get k False s; (vs, s) = session_gets ks s in (v # vs, s))"

section \<open>What the operations change\<close>

lemma session_get_value [simp]: "fst (session_get k d s) = msession s k"
  by (simp add: session_get_def Let_def split: option.splits)

lemma session_get_idle [simp]: "mtrack s = None \<Longrightarrow> session_get k d s = (msession s k, s)"
  by (simp add: session_get_def)

lemma session_get_tracks: "mtrack s = Some tr \<Longrightarrow>
  session_get k False s = (msession s k, s\<lparr>mtrack := Some (tr @ [k])\<rparr>)"
  by (simp add: session_get_def)

lemma session_gets_idle [simp]: "mtrack s = None \<Longrightarrow> session_gets ks s = (map (msession s) ks, s)"
  by (induction ks) simp_all

text \<open>
  The whole effect of a round, with the queue and the timers written out. The frame facts say
  that nothing but the queue and the timers changes, in particular no field of an extension.
\<close>

lemma pend_one_eq: "pend_one f s = s\<lparr>
    mpend := (if f \<in> set (mpend s) then mpend s else mpend s @ [f]),
    mtimeout := Some (next_timer s),
    timers := (case mtimeout s of None \<Rightarrow> timers s | Some t \<Rightarrow> removeAll t (timers s)) @ [next_timer s],
    next_timer := Suc (next_timer s)\<rparr>"
  by (auto simp: pend_one_def Let_def clear_timeout_def set_timeout_def split: option.splits)

lemma pend_one_frame [frame_simps]:
  "mdeps (pend_one f s) = mdeps s" "mtrack (pend_one f s) = mtrack s"
  "msession (pend_one f s) = msession s" "meteor.more (pend_one f s) = meteor.more s"
  by (simp_all add: pend_one_eq)

lemma fold_pend_one_frame [frame_simps]:
  "mdeps (fold pend_one fs s) = mdeps s" "mtrack (fold pend_one fs s) = mtrack s"
  "msession (fold pend_one fs s) = msession s" "meteor.more (fold pend_one fs s) = meteor.more s"
  by (induction fs arbitrary: s) (simp_all add: frame_simps)

lemma session_set_frame [simp, frame_simps]:
  "mdeps (session_set k v s) = mdeps s" "mtrack (session_set k v s) = mtrack s"
  "meteor.more (session_set k v s) = meteor.more s"
  by (simp_all add: session_set_def frame_simps)

lemma session_set_session [simp, session_simps]:
  "msession (session_set k v s) = (msession s)(k := v)"
  by (simp add: session_set_def frame_simps)

lemma session_setDefault_idle [session_simps]: "mtrack s = None \<Longrightarrow>
  session_setDefault k v s = (if msession s k = None then session_set k v s else s)"
  by (simp add: session_setDefault_def)

lemma pend_one_pend: "mpend (pend_one f s) = (if f \<in> set (mpend s) then mpend s else mpend s @ [f])"
  by (simp add: pend_one_eq)

lemma fold_pend_one_set: "set (mpend (fold pend_one fs s)) = set (mpend s) \<union> set fs"
  by (induction fs arbitrary: s) (auto simp: pend_one_pend)

lemma fold_pend_one_distinct: "distinct (mpend s) \<Longrightarrow> distinct (mpend (fold pend_one fs s))"
  by (induction fs arbitrary: s) (auto simp: pend_one_pend)

lemma fold_pend_one_prefix: "\<exists>qs. mpend (fold pend_one fs s) = mpend s @ qs"
proof (induction fs arbitrary: s)
  case (Cons f fs)
  from Cons [of "pend_one f s"] show ?case by (auto simp: pend_one_pend split: if_splits)
qed simp

text \<open>Setting a key queues its dependents behind what is queued, each once.\<close>

lemma session_set_queue: "set (mpend (session_set k v s)) = set (mpend s) \<union> set (mdeps s k)"
  by (simp add: session_set_def fold_pend_one_set)

lemma session_set_prefix: "\<exists>qs. mpend (session_set k v s) = mpend s @ qs"
  unfolding session_set_def Let_def using fold_pend_one_prefix [of "mdeps s k" "s\<lparr>msession := (msession s)(k := v)\<rparr>"] by simp

section \<open>The invariant of the queue\<close>

text \<open>
  No function is queued twice; at most one timer is armed, it is the one \<open>_pendTimeout\<close> names,
  and it is armed whenever the queue is not empty, so no queued function is forgotten.
\<close>

definition minv :: "('f, 'v, 'z) meteor_scheme \<Rightarrow> bool" where
  "minv s \<longleftrightarrow> distinct (mpend s)
     \<and> (timers s = [] \<or> (\<exists>t. timers s = [t] \<and> mtimeout s = Some t))
     \<and> (mpend s \<noteq> [] \<longrightarrow> timers s \<noteq> [])"

lemma pend_one_minv: "minv s \<Longrightarrow> minv (pend_one f s)"
  by (auto simp: minv_def pend_one_eq split: option.splits)

lemma fold_pend_one_minv: "minv s \<Longrightarrow> minv (fold pend_one fs s)"
  by (induction fs arbitrary: s) (simp_all add: pend_one_minv)

lemma session_set_minv [intro]: "minv s \<Longrightarrow> minv (session_set k v s)"
  unfolding session_set_def Let_def by (rule fold_pend_one_minv) (simp add: minv_def)

lemma session_get_minv [intro]: "minv s \<Longrightarrow> minv (snd (session_get k d s))"
  by (simp add: session_get_def Let_def minv_def split: option.splits)

lemma session_gets_minv [intro]: "minv s \<Longrightarrow> minv (snd (session_gets ks s))"
proof (induction ks arbitrary: s)
  case (Cons k ks)
  have "minv (snd (session_gets ks (snd (session_get k False s))))"
    using Cons by (blast intro: session_get_minv)
  then show ?case by (simp add: split_beta)
qed simp

lemma session_setDefault_minv [intro]: "minv s \<Longrightarrow> minv (session_setDefault k v s)"
  using session_get_minv [of s k False]
  by (auto simp: session_setDefault_def split: prod.splits)

lemma minv_track [simp]: "minv (s\<lparr>mtrack := tr\<rparr>) = minv s" "minv (s\<lparr>mdeps := d\<rparr>) = minv s"
  by (simp_all add: minv_def)

text \<open>Once a timer is armed by a queued function, the others keep it armed.\<close>

lemma fold_pend_one_timers: "fs \<noteq> [] \<Longrightarrow> timers (fold pend_one fs s) \<noteq> []"
proof (induction fs arbitrary: s)
  case (Cons f fs)
  then show ?case by (cases "fs = []") (simp_all add: pend_one_eq)
qed simp

section \<open>Running the queue\<close>

lemma run_pending_fold:
  "snd (run_pending body fs s) = None \<Longrightarrow>
   run_pending body fs s = (fold (\<lambda>f s. fst (body f s)) fs s, None)"
proof (induction fs arbitrary: s)
  case (Cons f fs)
  then show ?case by (cases "body f s") (auto split: option.splits)
qed simp

lemma run_pending_throw:
  "snd (run_pending body fs s) = Some e \<Longrightarrow>
   \<exists>as f bs. fs = as @ f # bs \<and> snd (run_pending body as s) = None
     \<and> body f (fst (run_pending body as s)) = (fst (run_pending body fs s), Some e)"
proof (induction fs arbitrary: s)
  case (Cons f fs)
  obtain s' r where b: "body f s = (s', r)" by (cases "body f s")
  show ?case
  proof (cases r)
    case None
    with Cons b have "snd (run_pending body fs s') = Some e" by simp
    from Cons.IH [OF this] obtain as g bs where fs: "fs = as @ g # bs"
      and "snd (run_pending body as s') = None"
      and "body g (fst (run_pending body as s')) = (fst (run_pending body fs s'), Some e)" by blast
    with b None show ?thesis by (intro exI [of _ "f # as"] exI [of _ g] exI [of _ bs]) simp
  next
    case (Some e')
    with Cons.prems b show ?thesis by (intro exI [of _ "[]"] exI [of _ f] exI [of _ fs]) simp
  qed
qed simp

text \<open>
  Specification: all functions, one after the other, each from the state the one before it leaves.
  Without an exception this is what the loop does, and no function threw; with one, the loop ends in
  the state the throwing function leaves.
\<close>

definition run_all :: "('f, 'v, 'z) body \<Rightarrow> 'f list \<Rightarrow> ('f, 'v, 'z) meteor_scheme \<Rightarrow> ('f, 'v, 'z) meteor_scheme" where
  "run_all body fs s = fold (\<lambda>f s. fst (body f s)) fs s"

lemma run_all_simps [simp]: "run_all body [] s = s" "run_all body (f # fs) s = run_all body fs (fst (body f s))"
  by (simp_all add: run_all_def)

lemma run_pending_all:
  "snd (run_pending body fs s) = None \<Longrightarrow> fst (run_pending body fs s) = run_all body fs s"
  by (simp add: run_pending_fold run_all_def)

lemma run_pending_prefix:
  "snd (run_pending body (as @ f # bs) s) = None \<Longrightarrow> snd (body f (run_all body as s)) = None"
proof (induction as arbitrary: s)
  case Nil
  then show ?case by (cases "body f s") (simp split: option.splits)
next
  case (Cons a as)
  obtain s' r where "body a s = (s', r)" by (cases "body a s")
  with Cons show ?case by (cases r) simp_all
qed

lemma run_pending_thrown:
  assumes "snd (run_pending body fs s) = Some e"
  shows "\<exists>as f bs. fs = as @ f # bs \<and> body f (run_all body as s) = (fst (run_pending body fs s), Some e)"
  using run_pending_throw [OF assms] run_pending_all by metis

text \<open>
  The contract between the engine and the functions it runs: a body may use the session
  operations, so it keeps the queue's invariant, and it leaves the tracking mode as it finds it.
\<close>

locale reactive =
  fixes body :: "('f, 'v, 'z) body"
  assumes body_minv: "minv s \<Longrightarrow> minv (fst (body f s))"
begin

lemma run_pending_minv: "minv s \<Longrightarrow> minv (fst (run_pending body fs s))"
proof (induction fs arbitrary: s)
  case (Cons f fs)
  obtain s' r where b: "body f s = (s', r)" by (cases "body f s")
  then have "minv s'" using body_minv [OF Cons.prems, of f] by simp
  with Cons.IH b show ?case by (cases r) simp_all
qed simp

lemma fire_timer_minv: "minv s \<Longrightarrow> t \<in> set (timers s) \<Longrightarrow> minv (fst (fire_timer body t s))"
  unfolding fire_timer_def session_process_def
  by (rule run_pending_minv) (auto simp: minv_def)

lemma deps_autorun_minv: "minv s \<Longrightarrow> minv (fst (deps_autorun body f s))"
  using body_minv [of "s\<lparr>mtrack := Some []\<rparr>" f]
  by (auto simp: deps_autorun_def Let_def split: prod.splits option.splits)

end

section \<open>The event loop\<close>

text \<open>
  Between two turns of the browser's event loop a handler sets a session key, a script registers an
  autorun, or the armed timer fires.
\<close>

inductive mstep :: "('f, 'v, 'z) body \<Rightarrow> ('f, 'v, 'z) meteor_scheme \<Rightarrow> ('f, 'v, 'z) meteor_scheme \<Rightarrow> bool"
  for body where
  set_key: "mstep body s (session_set k v s)"
| register: "mstep body s (fst (deps_autorun body f s))"
| fire: "t \<in> set (timers s) \<Longrightarrow> mstep body s (fst (fire_timer body t s))"

inductive_cases mstepE: "mstep body s s'"

inductive msteps :: "('f, 'v, 'z) body \<Rightarrow> ('f, 'v, 'z) meteor_scheme \<Rightarrow> ('f, 'v, 'z) meteor_scheme \<Rightarrow> bool"
  for body where
  none: "msteps body s s"
| one_more: "msteps body s t \<Longrightarrow> mstep body t u \<Longrightarrow> msteps body s u"

context reactive
begin

lemma mstep_minv: "mstep body s t \<Longrightarrow> minv s \<Longrightarrow> minv t"
  by (erule mstepE) (auto simp: fire_timer_minv deps_autorun_minv)

lemma msteps_minv: "msteps body s t \<Longrightarrow> minv s \<Longrightarrow> minv t"
  by (induction rule: msteps.induct) (auto dest: mstep_minv)

end

section \<open>Registration\<close>

lemma fold_add_dep: "fold (add_dep f) ks d k = d k @ replicate (count_list ks k) f"
  by (induction ks arbitrary: d) (auto simp: add_dep_def replicate_app_Cons_same)

section \<open>The session as a store\<close>

text \<open>
  What the history code relies on: reading back what was written, and nothing else changing. A
  state saved as a list of keys and values is restored by writing the keys that differ.
\<close>

locale store =
  fixes read :: "'s \<Rightarrow> 'k \<Rightarrow> 'v"
    and put :: "'k \<Rightarrow> 'v \<Rightarrow> 's \<Rightarrow> 's"
  assumes read_write: "read (put k v s) j = (if j = k then v else read s j)"
begin

lemma read_restore:
  assumes same: "\<And>a b. \<not> neq a b \<Longrightarrow> a = b"
    and "distinct (map fst kvs)"
  shows "read (fold (\<lambda>(k, v) s. if neq (read s k) v then put k v s else s) kvs s) j
    = (case map_of kvs j of Some v \<Rightarrow> v | None \<Rightarrow> read s j)"
  using assms(2)
proof (induction kvs arbitrary: s)
  case (Cons p kvs)
  obtain k v where p: "p = (k, v)" by (cases p)
  let ?s = "if neq (read s k) v then put k v s else s"
  have "k \<notin> fst ` set kvs" using Cons.prems p by simp
  then have none: "map_of kvs k = None" by (simp add: map_of_eq_None_iff)
  have "read ?s j = (if j = k then v else read s j)"
    using same [of "read s k" v] by (auto simp: read_write)
  with Cons p none show ?case by (auto split: option.splits)
qed simp

end

interpretation session: store msession session_set
  by unfold_locales simp

end
