(* ===== verification/JS_Number.thy ===== *)
theory JS_Number
  imports Prelude "HOL-Library.Word" "HOL-Library.Log_Nat"
begin

text \<open>
  The part of the JavaScript language the client computes with: IEEE binary64 numbers (finite
  values as rationals that are rounded to 53 significant bits after every operation, the two
  infinities and NaN; the sign of zero is not represented), the conversion to 32-bit integers
  behind the bitwise operators, and the conversions between numbers and strings
  (\<open>parseInt\<close>, \<open>Number.prototype.toString\<close>). Strings are lists of ASCII characters.
\<close>

unbundle bit_operations_syntax

section \<open>Binary64 numbers\<close>

datatype jsnum = NaN | PInf | NInf | Fin rat

definition pow2 :: "int \<Rightarrow> rat" where
  "pow2 e = (if 0 \<le> e then 2 ^ nat e else 1 / 2 ^ nat (- e))"

text \<open>The exponent of the leading bit of a positive rational.\<close>

definition ilog2 :: "rat \<Rightarrow> int" where
  "ilog2 x = (let (p, q) = quotient_of x; k = bitlen p - bitlen q
              in if pow2 k \<le> x then k else k - 1)"

text \<open>Round to nearest, ties to even.\<close>

definition round_even :: "rat \<Rightarrow> int" where
  "round_even x = (let f = \<lfloor>x\<rfloor>; d = x - of_int f
     in if d < 1 / 2 then f else if 1 / 2 < d then f + 1 else if even f then f else f + 1)"

definition f64 :: "rat \<Rightarrow> rat" where
  "f64 x = (if x = 0 then 0
     else let u = pow2 (max (- 1074) (ilog2 \<bar>x\<bar> - 52)) in of_int (round_even (x / u)) * u)"

definition jsfin :: "rat \<Rightarrow> jsnum" where
  "jsfin x = (let r = f64 x in
     if 2 ^ 1024 \<le> r then PInf else if r \<le> - (2 ^ 1024) then NInf else Fin r)"

text \<open>
  \<open>ji k\<close> is the integer \<open>k\<close> as a number, \<open>jsint k\<close> the number nearest to it. Integer literals
  of the source are written with \<open>ji\<close>, so that the simplifier computes with the rules below and
  never sees the rational.
\<close>

definition ji :: "int \<Rightarrow> jsnum" where
  "ji k = Fin (of_int k)"

definition jsint :: "int \<Rightarrow> jsnum" where
  "jsint k = jsfin (of_int k)"

subsection \<open>Integers below \<open>2^53\<close> are exact\<close>

definition safe :: "int \<Rightarrow> bool" where
  "safe k \<longleftrightarrow> \<bar>k\<bar> < 2 ^ 53"

lemma pow2_pos [simp]: "0 < pow2 e"
  by (simp add: pow2_def)

lemma round_even_of_int [simp]: "round_even (of_int k) = k"
  by (simp add: round_even_def)

lemma round_even_nonneg: "0 \<le> x \<Longrightarrow> 0 \<le> round_even x"
  by (auto simp: round_even_def Let_def)

lemma f64_nonneg: "0 \<le> x \<Longrightarrow> 0 \<le> f64 x"
  by (auto simp: f64_def Let_def round_even_nonneg less_imp_le)

lemma ilog2_int_le:
  assumes "0 < k" and "k < 2 ^ n"
  shows "ilog2 (of_int k) \<le> int n - 1"
proof -
  have "bitlen k \<le> int n" and "bitlen 1 = 1"
    using assms compute_bitlen [of 1] by (simp_all add: bitlen_le_iff_power)
  then show ?thesis
    using assms by (auto simp: ilog2_def Let_def quotient_of_int)
qed

lemma f64_of_int [simp]:
  assumes "safe k"
  shows "f64 (of_int k) = of_int k"
proof (cases "k = 0")
  case False
  define e where "e = max (- 1074) (ilog2 \<bar>of_int k\<bar> - 52)"
  have "ilog2 (of_int \<bar>k\<bar>) \<le> int 53 - 1"
    using assms False by (intro ilog2_int_le) (auto simp: safe_def)
  then have e0: "e \<le> 0"
    by (simp add: e_def)
  have "of_int k / pow2 e = (of_int (k * 2 ^ nat (- e)) :: rat)"
    using e0 by (auto simp: pow2_def)
  then have "round_even (of_int k / pow2 e) = k * 2 ^ nat (- e)"
    by (metis round_even_of_int)
  moreover have "(2::rat) ^ nat (- e) * pow2 e = 1"
    using e0 by (auto simp: pow2_def)
  ultimately show ?thesis
    using False by (simp add: f64_def Let_def flip: e_def)
qed (simp add: f64_def)

lemma jsint_safe [simp]: "safe k \<Longrightarrow> jsint k = ji k"
proof -
  assume s: "safe k"
  then have "\<bar>k\<bar> < 2 ^ 1024" by (simp add: safe_def)
  then have "(of_int \<bar>k\<bar> :: rat) < of_int (2 ^ 1024)"
    by (simp only: of_int_less_iff)
  with s show ?thesis by (auto simp: jsint_def ji_def jsfin_def Let_def)
qed

lemma ji_inject [simp]: "ji a = ji b \<longleftrightarrow> a = b"
  by (simp add: ji_def)

lemma ji_finite [simp]: "ji a \<noteq> NaN" "ji a \<noteq> PInf" "ji a \<noteq> NInf"
  "NaN \<noteq> ji a" "PInf \<noteq> ji a" "NInf \<noteq> ji a"
  by (simp_all add: ji_def)


lemma safeI: "\<bar>k\<bar> < 2 ^ 53 \<Longrightarrow> safe k"
  by (simp add: safe_def)

lemma safe_num [simp]:
  "safe 0" "safe 1" "safe (- 1)"
  "safe (numeral n) \<longleftrightarrow> (numeral n :: int) < 2 ^ 53"
  "safe (- numeral n) \<longleftrightarrow> (numeral n :: int) < 2 ^ 53"
  by (auto simp: safe_def)

lemma safe_mono: "safe k \<Longrightarrow> \<bar>j\<bar> \<le> \<bar>k\<bar> \<Longrightarrow> safe j"
  by (simp add: safe_def)

section \<open>Arithmetic and comparison\<close>

fun js_neg :: "jsnum \<Rightarrow> jsnum" where
  "js_neg NaN = NaN"
| "js_neg PInf = NInf"
| "js_neg NInf = PInf"
| "js_neg (Fin a) = Fin (- a)"

fun js_add :: "jsnum \<Rightarrow> jsnum \<Rightarrow> jsnum" where
  "js_add (Fin a) (Fin b) = jsfin (a + b)"
| "js_add NaN b = NaN"
| "js_add a NaN = NaN"
| "js_add PInf NInf = NaN"
| "js_add NInf PInf = NaN"
| "js_add PInf b = PInf"
| "js_add NInf b = NInf"
| "js_add a b = b"

definition js_sub :: "jsnum \<Rightarrow> jsnum \<Rightarrow> jsnum" where
  "js_sub a b = js_add a (js_neg b)"

fun js_sgn :: "jsnum \<Rightarrow> rat" where
  "js_sgn NaN = 0"
| "js_sgn PInf = 1"
| "js_sgn NInf = - 1"
| "js_sgn (Fin a) = sgn a"

definition js_inf :: "rat \<Rightarrow> jsnum" where
  "js_inf s = (if s = 0 then NaN else if 0 < s then PInf else NInf)"

fun js_mul :: "jsnum \<Rightarrow> jsnum \<Rightarrow> jsnum" where
  "js_mul (Fin a) (Fin b) = jsfin (a * b)"
| "js_mul NaN b = NaN"
| "js_mul a NaN = NaN"
| "js_mul a b = js_inf (js_sgn a * js_sgn b)"

text \<open>Division: a zero divisor counts as positive zero.\<close>

fun js_div :: "jsnum \<Rightarrow> jsnum \<Rightarrow> jsnum" where
  "js_div NaN b = NaN"
| "js_div a NaN = NaN"
| "js_div (Fin a) (Fin b) = (if b = 0 then js_inf (sgn a) else jsfin (a / b))"
| "js_div (Fin a) b = Fin 0"
| "js_div a (Fin b) = js_inf (js_sgn a * (if b = 0 then 1 else sgn b))"
| "js_div a b = NaN"

fun js_lt :: "jsnum \<Rightarrow> jsnum \<Rightarrow> bool" where
  "js_lt NaN b = False"
| "js_lt a NaN = False"
| "js_lt (Fin a) (Fin b) = (a < b)"
| "js_lt a PInf = (a \<noteq> PInf)"
| "js_lt NInf b = (b \<noteq> NInf)"
| "js_lt a b = False"

definition js_eq :: "jsnum \<Rightarrow> jsnum \<Rightarrow> bool" where
  "js_eq a b \<longleftrightarrow> a \<noteq> NaN \<and> a = b"

definition js_le :: "jsnum \<Rightarrow> jsnum \<Rightarrow> bool" where
  "js_le a b \<longleftrightarrow> js_lt a b \<or> js_eq a b"

fun js_round :: "jsnum \<Rightarrow> jsnum" where
  "js_round (Fin a) = ji \<lfloor>a + 1 / 2\<rfloor>"
| "js_round a = a"

fun js_floor :: "jsnum \<Rightarrow> jsnum" where
  "js_floor (Fin a) = ji \<lfloor>a\<rfloor>"
| "js_floor a = a"

fun js_ceil :: "jsnum \<Rightarrow> jsnum" where
  "js_ceil (Fin a) = ji \<lceil>a\<rceil>"
| "js_ceil a = a"

fun js_abs :: "jsnum \<Rightarrow> jsnum" where
  "js_abs (Fin a) = Fin \<bar>a\<bar>"
| "js_abs NInf = PInf"
| "js_abs a = a"

definition js_max :: "jsnum \<Rightarrow> jsnum \<Rightarrow> jsnum" where
  "js_max a b = (if a = NaN \<or> b = NaN then NaN else if js_lt a b then b else a)"

definition js_min :: "jsnum \<Rightarrow> jsnum \<Rightarrow> jsnum" where
  "js_min a b = (if a = NaN \<or> b = NaN then NaN else if js_lt b a then b else a)"

text \<open>\<open>ToInt32\<close> and the bitwise operators built on it.\<close>

definition wrap32 :: "int \<Rightarrow> int" where
  "wrap32 k = (let m = k mod 2 ^ 32 in if 2 ^ 31 \<le> m then m - 2 ^ 32 else m)"

fun to_int32 :: "jsnum \<Rightarrow> int" where
  "to_int32 (Fin a) = wrap32 (if a < 0 then - \<lfloor>- a\<rfloor> else \<lfloor>a\<rfloor>)"
| "to_int32 a = 0"

definition js_and :: "jsnum \<Rightarrow> jsnum \<Rightarrow> jsnum" where
  "js_and a b = ji (to_int32 a AND to_int32 b)"

definition js_shr :: "jsnum \<Rightarrow> nat \<Rightarrow> jsnum" where
  "js_shr a n = ji (drop_bit (n mod 32) (to_int32 a))"

subsection \<open>The operations on exact integers\<close>

lemma js_add_ji [simp, js_num]: "safe (a + b) \<Longrightarrow> js_add (ji a) (ji b) = ji (a + b)"
  using jsint_safe [of "a + b"] by (simp add: ji_def jsint_def)

lemma js_sub_ji [simp, js_num]: "safe (a - b) \<Longrightarrow> js_sub (ji a) (ji b) = ji (a - b)"
  using jsint_safe [of "a - b"] by (simp add: js_sub_def ji_def jsint_def)

lemma js_mul_ji [simp, js_num]: "safe (a * b) \<Longrightarrow> js_mul (ji a) (ji b) = ji (a * b)"
  using jsint_safe [of "a * b"] by (simp add: ji_def jsint_def)

lemma js_lt_ji [simp, js_num]: "js_lt (ji a) (ji b) \<longleftrightarrow> a < b"
  by (simp add: ji_def)

lemma js_eq_ji [simp, js_num]: "js_eq (ji a) (ji b) \<longleftrightarrow> a = b"
  by (simp add: js_eq_def)

lemma js_le_ji [simp, js_num]: "js_le (ji a) (ji b) \<longleftrightarrow> a \<le> b"
  by (auto simp: js_le_def)

lemma js_max_ji [simp, js_num]: "js_max (ji a) (ji b) = ji (max a b)"
  by (auto simp: js_max_def max_def)

lemma js_min_ji [simp, js_num]: "js_min (ji a) (ji b) = ji (min a b)"
  by (auto simp: js_min_def min_def)

lemma js_abs_ji [simp, js_num]: "js_abs (ji a) = ji \<bar>a\<bar>"
  by (simp add: ji_def)

lemma floor_plus_half_int [simp]: "\<lfloor>(of_int a :: rat) + 1 / 2\<rfloor> = a"
  by (simp add: floor_eq_iff)

lemma js_round_ji [simp, js_num]: "js_round (ji a) = ji a"
  by (simp add: ji_def)

lemma js_neg_ji [simp, js_num]: "js_neg (ji a) = ji (- a)"
  by (simp add: ji_def)

lemma to_int32_ji [simp, js_num]: "to_int32 (ji a) = wrap32 a"
  by (auto simp: ji_def simp flip: of_int_minus)

lemma wrap32_bounds: "- (2 ^ 31) \<le> wrap32 k \<and> wrap32 k < 2 ^ 31"
  by (auto simp: wrap32_def Let_def)

lemma wrap32_mod: "wrap32 k mod 2 ^ 32 = k mod 2 ^ 32"
  by (auto simp: wrap32_def Let_def)

lemma wrap32_id: "- (2 ^ 31) \<le> k \<Longrightarrow> k < 2 ^ 31 \<Longrightarrow> wrap32 k = k"
  using mod_pos_pos_trivial [of "k + 2 ^ 32" "2 ^ 32"]
  by (cases "0 \<le> k") (auto simp: wrap32_def Let_def)

lemma js_lt_antisym: "js_lt a b \<Longrightarrow> \<not> js_lt b a"
  by (cases a; cases b) auto

lemma js_lt_irrefl [simp]: "\<not> js_lt a a"
  by (cases a) auto

subsection \<open>Dyadic rationals are exact\<close>

lemma pow2_powi: "pow2 e = 2 powi e"
  by (auto simp: pow2_def power_int_def power_one_over)

lemma pow2_add: "pow2 (a + b) = pow2 a * pow2 b"
  by (simp add: pow2_powi power_int_add)

lemma pow2_less_iff: "pow2 a < pow2 b \<longleftrightarrow> a < b"
  using power_int_strict_increasing [of a b "2::rat"] power_int_increasing [of b a "2::rat"]
  by (cases "a < b") (auto simp: pow2_powi not_less)

lemma pow2_int [simp]: "pow2 (int n) = 2 ^ n"
  by (simp add: pow2_def)

lemma pow2_ilog2_le:
  assumes "0 < x"
  shows "pow2 (ilog2 x) \<le> x"
proof -
  obtain p q where pq: "quotient_of x = (p, q)" by fastforce
  then have q: "0 < q" and x: "x = of_int p / of_int q"
    using quotient_of_denom_pos quotient_of_div by blast+
  with assms have p: "0 < p" by (simp add: zero_less_divide_iff)
  have lp: "2 ^ nat (bitlen p - 1) \<le> p" and uq: "q < 2 ^ nat (bitlen q)"
    using bitlen_bounds p q by blast+
  have b: "0 < bitlen p" "0 < bitlen q"
    using p q bitlen_nonneg [of p] bitlen_nonneg [of q] bitlen_eq_zero_iff [of p] bitlen_eq_zero_iff [of q]
    by linarith+
  have "pow2 (bitlen p - 1) = pow2 (bitlen p - 1 - bitlen q) * pow2 (bitlen q)"
    by (simp flip: pow2_add)
  then have "pow2 (bitlen p - 1 - bitlen q) = of_int (2 ^ nat (bitlen p - 1)) / of_int (2 ^ nat (bitlen q))"
    using b by (simp add: pow2_def field_simps)
  also have "\<dots> \<le> of_int p / of_int q"
    using lp uq p q by (intro frac_le) (auto simp only: of_int_le_iff of_int_0_le_iff of_int_0_less_iff)
  finally have "pow2 (bitlen p - bitlen q - 1) \<le> x"
    unfolding x by (simp add: algebra_simps)
  then show ?thesis by (simp add: ilog2_def pq Let_def)
qed

lemma f64_dyadic:
  assumes "safe k" and "m \<le> 1074"
  shows "f64 (of_int k / 2 ^ m) = of_int k / 2 ^ m"
proof (cases "k = 0")
  case False
  let ?x = "of_int k / 2 ^ m :: rat"
  define e where "e = max (- 1074) (ilog2 \<bar>?x\<bar> - 52)"
  have f: "f64 ?x = of_int (round_even (?x / pow2 e)) * pow2 e"
    using False by (simp only: f64_def Let_def e_def) simp
  have x0: "0 < \<bar>?x\<bar>" using False by simp
  have "(of_int \<bar>k\<bar> :: rat) < of_int (2 ^ 53)"
    using assms by (simp only: of_int_less_iff safe_def)
  then have "\<bar>?x\<bar> < 2 ^ 53 / 2 ^ m"
    by (simp add: divide_strict_right_mono)
  also have "\<dots> = pow2 (53 - int m)"
    by (simp add: pow2_powi power_int_diff)
  finally have "pow2 (ilog2 \<bar>?x\<bar>) < pow2 (53 - int m)"
    using pow2_ilog2_le [OF x0] by linarith
  then have e: "e \<le> - int m"
    using assms by (simp add: pow2_less_iff e_def)
  define d where "d = nat (- e - int m)"
  have pe: "pow2 (- e) * pow2 e = 1" by (simp flip: pow2_add) (simp add: pow2_def)
  have "pow2 (- e) = pow2 (int d + int m)" using e by (simp add: d_def)
  then have pd: "pow2 (- e) = 2 ^ d * 2 ^ m"
    by (simp add: pow2_add)
  have "?x / pow2 e = ?x * pow2 (- e)"
    using pe by (metis nonzero_eq_divide_eq mult.assoc mult.right_neutral pow2_pos less_numeral_extra(3))
  also have "\<dots> = of_int (k * 2 ^ d)" by (simp add: pd)
  finally have "round_even (?x / pow2 e) = k * 2 ^ d" by (metis round_even_of_int)
  moreover have "of_int (k * 2 ^ d) * pow2 e = ?x"
    using pe pd by (simp add: field_simps)
  ultimately show ?thesis by (simp only: f)
qed (simp add: f64_def)

lemma jsfin_exact:
  assumes "f64 x = x" and "\<bar>x\<bar> < 2 ^ 1024"
  shows "jsfin x = Fin x"
proof -
  have "\<not> 2 ^ 1024 \<le> x" and "\<not> x \<le> - (2 ^ 1024)"
    using assms(2) by (simp_all only: abs_less_iff not_le minus_less_iff)
  then show ?thesis by (simp only: jsfin_def Let_def assms(1) if_False)
qed

lemma jsfin_dyadic:
  assumes "safe k" and "m \<le> 62"
  shows "jsfin (of_int k / 2 ^ m) = Fin (of_int k / 2 ^ m)"
proof -
  have "\<bar>of_int k / 2 ^ m :: rat\<bar> \<le> \<bar>of_int k\<bar>"
    by (simp add: divide_le_eq mult_le_cancel_left1)
  also have "\<dots> < of_int (2 ^ 53)"
    using assms(1) by (simp only: safe_def of_int_less_iff flip: of_int_abs)
  also have "\<dots> \<le> (2 ^ 1024 :: rat)" by simp
  finally show ?thesis using f64_dyadic [of k m] assms by (intro jsfin_exact) auto
qed

lemma js_div_pow2:
  assumes "safe k" and "m \<le> 62"
  shows "js_div (ji k) (ji (2 ^ m)) = Fin (of_int k / 2 ^ m)"
  using jsfin_dyadic [OF assms] by (simp add: ji_def)

lemma round_even_le: "of_int (round_even x) \<le> x + 1 / 2"
  unfolding round_even_def Let_def by (auto; linarith)

lemma f64_le:
  assumes "0 \<le> x"
  shows "f64 x \<le> 2 * x + 1"
proof (cases "x = 0")
  case False
  define u where "u = pow2 (max (- 1074) (ilog2 \<bar>x\<bar> - 52))"
  have x: "0 < x" using assms False by simp
  have u0: "0 < u" by (simp add: u_def)
  have "pow2 (ilog2 x - 52) \<le> pow2 (ilog2 x)"
    by (simp add: pow2_powi power_int_increasing)
  also have "\<dots> \<le> x" using x by (rule pow2_ilog2_le)
  finally have 1: "pow2 (ilog2 x - 52) \<le> x" .
  have 2: "pow2 (- 1074) \<le> 1" by (simp add: pow2_def)
  have "u \<le> x + 1" using 1 2 x unfolding u_def by (auto simp: max_def)
  moreover have "f64 x = of_int (round_even (x / u)) * u"
    using False by (simp only: f64_def Let_def u_def) simp
  moreover have "of_int (round_even (x / u)) * u \<le> (x / u + 1 / 2) * u"
    using u0 round_even_le by (intro mult_right_mono) auto
  moreover have "(x / u + 1 / 2) * u = x + u / 2" using u0 by (simp add: field_simps)
  ultimately show ?thesis using x by linarith
qed (simp add: f64_def)

lemma jsfin_nonneg:
  assumes "0 \<le> x" and "x < 2 ^ 60"
  shows "\<exists>r. jsfin x = Fin r \<and> 0 \<le> r \<and> r \<le> 2 * x + 1"
proof -
  have "f64 x \<le> 2 * x + 1" using assms(1) by (rule f64_le)
  also have "\<dots> < 2 ^ 62" using assms(2) by simp
  also have "(2 ^ 62 :: rat) \<le> 2 ^ 1024" by (rule power_increasing) auto
  finally have "\<not> 2 ^ 1024 \<le> f64 x" by (simp only: not_le)
  moreover have "- (2 ^ 1024) < (0::rat)" by (simp only: neg_less_0_iff_less zero_less_power zero_less_numeral)
  then have "\<not> f64 x \<le> - (2 ^ 1024)" using f64_nonneg [OF assms(1)] by (meson not_le order_less_le_trans)
  ultimately have "jsfin x = Fin (f64 x)" by (simp only: jsfin_def Let_def if_False)
  then show ?thesis using f64_nonneg [OF assms(1)] f64_le [OF assms(1)] by blast
qed

subsection \<open>The error of rounding\<close>

lemma round_even_near: "\<bar>of_int (round_even x) - x\<bar> \<le> 1 / 2"
proof -
  have "of_int \<lfloor>x\<rfloor> \<le> x" "x < of_int \<lfloor>x\<rfloor> + 1" by linarith+
  then show ?thesis by (simp add: round_even_def Let_def abs_le_iff)
qed

lemma f64_near: "\<bar>f64 x - x\<bar> \<le> \<bar>x\<bar> / 2 ^ 53 + 1 / 2 ^ 100"
proof (cases "x = 0")
  case False
  define e where "e = max (- 1074) (ilog2 \<bar>x\<bar> - 52)"
  have "f64 x - x = (of_int (round_even (x / pow2 e)) - x / pow2 e) * pow2 e"
    using False by (simp only: f64_def Let_def flip: e_def) (simp add: left_diff_distrib less_imp_neq [OF pow2_pos, symmetric])
  then have "\<bar>f64 x - x\<bar> = \<bar>of_int (round_even (x / pow2 e)) - x / pow2 e\<bar> * pow2 e"
    by (simp add: abs_mult abs_of_pos)
  also have "\<dots> \<le> 1 / 2 * pow2 e" using round_even_near by (intro mult_right_mono) (simp_all add: less_imp_le)
  finally have 1: "\<bar>f64 x - x\<bar> \<le> pow2 e / 2" by simp
  have "pow2 (ilog2 \<bar>x\<bar> - 52) = pow2 (ilog2 \<bar>x\<bar>) * pow2 (- 52)" by (simp flip: pow2_add)
  then have 2: "pow2 (ilog2 \<bar>x\<bar> - 52) \<le> \<bar>x\<bar> / 2 ^ 52"
    using pow2_ilog2_le [of "\<bar>x\<bar>"] False by (simp add: pow2_def divide_right_mono)
  have "pow2 (- 1074) \<le> pow2 (- 100)" using pow2_less_iff [of "- 1074" "- 100"] by (simp add: less_imp_le)
  then have 3: "pow2 (- 1074) \<le> 1 / 2 ^ 100" by (simp add: pow2_def [of "- 100"])
  have "pow2 e \<le> \<bar>x\<bar> / 2 ^ 52 + 1 / 2 ^ 100"
    using 2 3 by (cases "ilog2 \<bar>x\<bar> - 52 \<le> - 1074") (auto simp: e_def max_def intro: order_trans)
  with 1 show ?thesis by simp
qed (simp add: f64_def)

lemma jsfin_near:
  assumes "\<bar>x\<bar> < 2 ^ 60"
  obtains r where "jsfin x = Fin r" and "\<bar>r - x\<bar> \<le> \<bar>x\<bar> / 2 ^ 53 + 1 / 2 ^ 100"
proof
  have "\<bar>f64 x\<bar> \<le> \<bar>x\<bar> + \<bar>x\<bar> / 2 ^ 53 + 1 / 2 ^ 100" using f64_near [of x] by linarith
  also have "\<dots> < 2 ^ 62" using assms by simp
  also have "(2 ^ 62 :: rat) \<le> 2 ^ 1024" by (rule power_increasing) auto
  finally have "\<bar>f64 x\<bar> < 2 ^ 1024" .
  then have "\<not> 2 ^ 1024 \<le> f64 x" and "\<not> f64 x \<le> - (2 ^ 1024)"
    by (simp_all only: abs_less_iff not_le minus_less_iff)
  then show "jsfin x = Fin (f64 x)" by (simp only: jsfin_def Let_def if_False)
qed (rule f64_near)

lemma jsfin_nonneg_near:
  assumes "0 \<le> x" and "x < 2 ^ 60"
  obtains r where "jsfin x = Fin r" and "0 \<le> r" and "\<bar>r - x\<bar> \<le> x / 2 ^ 53 + 1 / 2 ^ 100"
  using jsfin_near [of x] jsfin_nonneg [OF assms] assms
  by (metis abs_of_nonneg jsnum.inject)

text \<open>The integer part of a scaled quotient is exact, though both operations round.\<close>

lemma floor_scaled:
  assumes "0 \<le> n" and "n < w" and "w < 2 ^ 30"
  shows "js_floor (js_mul (js_div (ji n) (ji w)) (ji 4096)) = ji (n * 4096 div w)"
proof -
  define q where "q = (of_int n / of_int w :: rat)"
  define k where "k = n * 4096 div w"
  have w: "0 < w" "(of_int w :: rat) < 2 ^ 30" using assms by (simp, metis of_int_less_iff of_int_numeral of_int_power assms(3))
  have x: "0 \<le> q" "q < 1" using assms by (simp_all add: q_def divide_less_eq)
  have kw: "k * w + n * 4096 mod w = n * 4096" by (simp add: k_def)
  then have xk: "q * 4096 = of_int k + of_int (n * 4096 mod w) / of_int w"
    using w by (simp add: q_def field_simps flip: of_int_mult of_int_add)
  obtain s where s: "jsfin q = Fin s" "0 \<le> s" "\<bar>s - q\<bar> \<le> q / 2 ^ 53 + 1 / 2 ^ 100"
    using jsfin_nonneg_near [of q] x by auto
  have d: "js_div (ji n) (ji w) = Fin s" using s(1) w by (simp add: ji_def q_def)
  have s2: "s < 2" using s(3) x by (simp add: abs_le_iff)
  obtain t where t: "jsfin (s * 4096) = Fin t" "0 \<le> t" "\<bar>t - s * 4096\<bar> \<le> s * 4096 / 2 ^ 53 + 1 / 2 ^ 100"
    using jsfin_nonneg_near [of "s * 4096"] s(2) s2 by auto
  have fl: "js_floor (js_mul (js_div (ji n) (ji w)) (ji 4096)) = ji \<lfloor>t\<rfloor>"
    using t(1) by (simp add: d) (simp add: ji_def)
  have "k * w < 4096 * w" using kw assms pos_mod_sign [of w "n * 4096"] w(1) by linarith
  then have k0: "0 \<le> k" "k < 4096" using assms w(1) by (simp_all add: k_def pos_imp_zdiv_nonneg_iff)
  have "\<lfloor>t\<rfloor> = k"
  proof (cases "n * 4096 mod w = 0")
    case True
    then have q: "q = of_int k / 2 ^ 12" using xk by simp
    have "s = of_int k / 2 ^ 12" using s(1) jsfin_dyadic [of k 12] k0 unfolding q by (simp add: safe_def)
    then have "t = of_int k" using t(1) jsfin_dyadic [of k 0] k0 by (simp add: safe_def)
    then show ?thesis by simp
  next
    case False
    define r where "r = n * 4096 mod w"
    have "1 \<le> r" "r + 1 \<le> w" using False w pos_mod_bound [of w "n * 4096"] pos_mod_sign [of w "n * 4096"] unfolding r_def by linarith+
    then have "(of_int 1 :: rat) \<le> of_int r" "of_int (r + 1) \<le> (of_int w :: rat)" by (simp_all only: of_int_le_iff)
    then have r: "1 / of_int w \<le> (of_int r / of_int w :: rat)" "of_int r / of_int w + 1 / of_int w \<le> (1 :: rat)"
      using w by (simp_all add: divide_right_mono flip: add_divide_distrib)
    have "1 / 2 ^ 30 < 1 / (of_int w :: rat)" using w by (intro divide_strict_left_mono) auto
    moreover have "t - q * 4096 < 1 / 2 ^ 30" "q * 4096 - t < 1 / 2 ^ 30"
      using s(3) t(3) x by (simp_all add: abs_le_iff)
    ultimately have "of_int k \<le> t \<and> t < of_int k + 1" using r unfolding xk r_def [symmetric] by linarith
    then show ?thesis by (simp add: floor_eq_iff)
  qed
  then show ?thesis unfolding fl k_def by simp
qed

section \<open>Sorting\<close>

text \<open>\<open>Array.prototype.sort\<close> with a comparator, as a stable insertion sort.\<close>

fun js_insort :: "('a \<Rightarrow> 'a \<Rightarrow> jsnum) \<Rightarrow> 'a \<Rightarrow> 'a list \<Rightarrow> 'a list" where
  "js_insort cmp x [] = [x]"
| "js_insort cmp x (y # ys) = (if js_lt (ji 0) (cmp x y) then y # js_insort cmp x ys else x # y # ys)"

definition js_sort :: "('a \<Rightarrow> 'a \<Rightarrow> jsnum) \<Rightarrow> 'a list \<Rightarrow> 'a list" where
  "js_sort cmp xs = foldr (js_insort cmp) xs []"

lemma set_js_insort [simp]: "set (js_insort cmp x ys) = insert x (set ys)"
  by (induction ys) auto

lemma set_js_sort [simp]: "set (js_sort cmp xs) = set xs"
  by (induction xs) (simp_all add: js_sort_def)

text \<open>A comparator that agrees with a key sorts by the key.\<close>

lemma js_sort_key:
  assumes "\<forall>x \<in> set xs. \<forall>y \<in> set xs. js_lt (ji 0) (cmp x y) \<longleftrightarrow> key y < (key x :: 'k::linorder)"
  shows "js_sort cmp xs = sort_key key xs"
  using assms
proof (induction xs)
  case (Cons x xs)
  have "js_insort cmp x ys = insort_key key x ys" if "set ys \<subseteq> set xs" for ys
    using that Cons.prems by (induction ys) auto
  with Cons show ?case by (simp add: js_sort_def)
qed (simp add: js_sort_def)

end
