(* ===== verification/JS_String.thy ===== *)
theory JS_String
  imports JS_Number
begin

text \<open>
  The string operations of the language that the client uses: \<open>parseInt\<close> in radix 10 and 16,
  \<open>Number.prototype.toString\<close>, \<open>substr\<close>, \<open>substring\<close>, \<open>split\<close>. The main facts are the round
  trips between numbers and their digit strings.
\<close>

section \<open>Definitions\<close>

definition digit_val :: "nat \<Rightarrow> char \<Rightarrow> nat option" where
  "digit_val r c = (let n = of_char c;
      d = (if 48 \<le> n \<and> n \<le> 57 then Some (n - 48)
           else if 97 \<le> n \<and> n \<le> 122 then Some (n - 87)
           else if 65 \<le> n \<and> n \<le> 90 then Some (n - 55) else None)
    in case d of Some v \<Rightarrow> if v < r then Some v else None | None \<Rightarrow> None)"

definition is_digit :: "nat \<Rightarrow> char \<Rightarrow> bool" where
  "is_digit r c \<longleftrightarrow> digit_val r c \<noteq> None"

definition digit_char :: "nat \<Rightarrow> char" where
  "digit_char d = char_of (if d < 10 then 48 + d else 87 + d)"

definition dval :: "nat \<Rightarrow> string \<Rightarrow> nat" where
  "dval r cs = foldl (\<lambda>a c. a * r + (case digit_val r c of Some d \<Rightarrow> d | None \<Rightarrow> 0)) 0 cs"

fun digits :: "nat \<Rightarrow> nat \<Rightarrow> string" where
  "digits r n = (if n < r \<or> r < 2 then [digit_char n] else digits r (n div r) @ [digit_char (n mod r)])"

declare digits.simps [simp del]

definition int_to_string :: "nat \<Rightarrow> int \<Rightarrow> string" where
  "int_to_string r k = (if k < 0 then ''-'' @ digits r (nat (- k)) else digits r (nat k))"

text \<open>
  \<open>Number.prototype.toString(r)\<close>. The client only prints integers; a fraction would be cut off
  here. (From \<open>10^21\<close> on, radix 10 would switch to the exponent notation.)
\<close>

fun num_to_string :: "nat \<Rightarrow> jsnum \<Rightarrow> string" where
  "num_to_string r NaN = ''NaN''"
| "num_to_string r PInf = ''Infinity''"
| "num_to_string r NInf = ''-Infinity''"
| "num_to_string r (Fin a) = int_to_string r \<lfloor>a\<rfloor>"

definition is_ws :: "char \<Rightarrow> bool" where
  "is_ws c \<longleftrightarrow> c = CHR '' '' \<or> of_char c \<in> {9, 10, 11, 12, 13 :: nat}"

definition strip_0x :: "nat \<Rightarrow> string \<Rightarrow> string" where
  "strip_0x r s = (if r = 16 \<and> (take 2 s = ''0x'' \<or> take 2 s = ''0X'') then drop 2 s else s)"

definition parse_int :: "nat \<Rightarrow> string \<Rightarrow> jsnum" where
  "parse_int r s = (let s1 = dropWhile is_ws s;
      neg = (take 1 s1 = ''-'');
      s2 = (if neg \<or> take 1 s1 = ''+'' then drop 1 s1 else s1);
      ds = takeWhile (is_digit r) (strip_0x r s2)
    in if ds = [] then NaN else jsint (if neg then - int (dval r ds) else int (dval r ds)))"

text \<open>\<open>s.substring(a, b)\<close> and \<open>s.split(c)\<close> for a one-character separator.\<close>

definition js_substring :: "string \<Rightarrow> nat \<Rightarrow> nat \<Rightarrow> string" where
  "js_substring s a b = drop (min a b) (take (max a b) s)"

fun js_split :: "char \<Rightarrow> string \<Rightarrow> string list" where
  "js_split c [] = [[]]"
| "js_split c (x # xs) = (if x = c then [] # js_split c xs
     else case js_split c xs of [] \<Rightarrow> [[x]] | y # ys \<Rightarrow> (x # y) # ys)"

text \<open>\<open>parseFloat\<close>: a decimal literal with optional sign, fraction and exponent at the start of the string.\<close>

definition parse_exp :: "string \<Rightarrow> int" where
  "parse_exp s = (if take 1 s = ''e'' \<or> take 1 s = ''E'' then
     let s1 = drop 1 s; neg = (take 1 s1 = ''-'');
         s2 = (if neg \<or> take 1 s1 = ''+'' then drop 1 s1 else s1);
         n = int (dval 10 (takeWhile (is_digit 10) s2))
     in if neg then - n else n else 0)"

definition parse_float :: "string \<Rightarrow> jsnum" where
  "parse_float s = (let s1 = dropWhile is_ws s; neg = (take 1 s1 = ''-'');
      s2 = (if neg \<or> take 1 s1 = ''+'' then drop 1 s1 else s1);
      ip = takeWhile (is_digit 10) s2; r1 = dropWhile (is_digit 10) s2;
      fp = (if take 1 r1 = ''.'' then takeWhile (is_digit 10) (drop 1 r1) else []);
      r2 = (if take 1 r1 = ''.'' then dropWhile (is_digit 10) (drop 1 r1) else r1);
      e = parse_exp r2 - int (length fp);
      m = (of_nat (dval 10 (ip @ fp)) :: rat);
      x = (if 0 \<le> e then m * 10 ^ nat e else m / 10 ^ nat (- e))
    in if take 8 s2 = ''Infinity'' then (if neg then NInf else PInf)
       else if ip = [] \<and> fp = [] then NaN else jsfin (if neg then - x else x))"

definition trim :: "string \<Rightarrow> string" where
  "trim s = rev (dropWhile is_ws (rev (dropWhile is_ws s)))"

text \<open>The value of a string as a number, as the operator \<open>==\<close> takes it: the whole string has to be a literal.\<close>

definition to_number :: "string \<Rightarrow> jsnum" where
  "to_number s = (let t = trim s;
      s2 = (if take 1 t = ''-'' \<or> take 1 t = ''+'' then drop 1 t else t);
      r1 = dropWhile (is_digit 10) s2;
      ds = takeWhile (is_digit 10) s2 @ (if take 1 r1 = ''.'' then takeWhile (is_digit 10) (drop 1 r1) else []);
      r2 = (if take 1 r1 = ''.'' then dropWhile (is_digit 10) (drop 1 r1) else r1);
      ex = (take 1 r2 = ''e'' \<or> take 1 r2 = ''E'');
      e1 = (if take 1 (drop 1 r2) = ''-'' \<or> take 1 (drop 1 r2) = ''+'' then drop 2 r2 else drop 1 r2);
      r3 = (if ex \<and> takeWhile (is_digit 10) e1 \<noteq> [] then dropWhile (is_digit 10) e1 else r2)
    in if t = [] then ji 0
       else if take 2 t = ''0x'' \<or> take 2 t = ''0X''
         then (if drop 2 t \<noteq> [] \<and> list_all (is_digit 16) (drop 2 t) then jsint (int (dval 16 (drop 2 t))) else NaN)
       else if s2 = ''Infinity'' then parse_float t
       else if ds = [] \<or> r3 \<noteq> [] then NaN else parse_float t)"

section \<open>Digits and values\<close>

definition all_digits :: "nat \<Rightarrow> string \<Rightarrow> bool" where
  "all_digits r cs \<longleftrightarrow> (\<forall>c \<in> set cs. is_digit r c)"

lemma digit_char_simps [simp]:
  "digit_char 0 = CHR ''0''" "digit_char 1 = CHR ''1''" "digit_char (Suc 0) = CHR ''1''"
  "digit_char 2 = CHR ''2''" "digit_char 3 = CHR ''3''" "digit_char 4 = CHR ''4''"
  "digit_char 5 = CHR ''5''" "digit_char 6 = CHR ''6''" "digit_char 7 = CHR ''7''"
  "digit_char 8 = CHR ''8''" "digit_char 9 = CHR ''9''" "digit_char 10 = CHR ''a''"
  "digit_char 11 = CHR ''b''" "digit_char 12 = CHR ''c''" "digit_char 13 = CHR ''d''"
  "digit_char 14 = CHR ''e''" "digit_char 15 = CHR ''f''"
  by (simp_all add: digit_char_def char_of_def bit_0)

lemma digit_val_char [simp]: "d < r \<Longrightarrow> r \<le> 36 \<Longrightarrow> digit_val r (digit_char d) = Some d"
  by (auto simp: digit_val_def digit_char_def Let_def)

lemma is_digit_char [simp]: "d < r \<Longrightarrow> r \<le> 36 \<Longrightarrow> is_digit r (digit_char d)"
  by (simp add: is_digit_def)

lemma digit_val_less: "digit_val r c = Some d \<Longrightarrow> d < r"
  by (auto simp: digit_val_def Let_def split: if_splits)

lemma dval_Nil [simp]: "dval r [] = 0"
  by (simp add: dval_def)

lemma dval_snoc [simp]:
  "dval r (cs @ [c]) = dval r cs * r + (case digit_val r c of Some d \<Rightarrow> d | None \<Rightarrow> 0)"
  by (simp add: dval_def)

lemma dval_append: "dval r (as @ bs) = dval r as * r ^ length bs + dval r bs"
  by (induction bs rule: rev_induct) (auto simp: algebra_simps simp flip: append_assoc)

lemma dval_single: "dval r [c] = (case digit_val r c of Some d \<Rightarrow> d | None \<Rightarrow> 0)"
  by (simp add: dval_def)

lemma dval_Cons:
  "dval r (c # cs) = (case digit_val r c of Some d \<Rightarrow> d | None \<Rightarrow> 0) * r ^ length cs + dval r cs"
  using dval_append [of r "[c]" cs] by (simp add: dval_single)

lemma dval_less: "0 < r \<Longrightarrow> dval r cs < r ^ length cs"
proof (induction cs rule: rev_induct)
  case (snoc c cs)
  let ?d = "case digit_val r c of Some d \<Rightarrow> d | None \<Rightarrow> 0"
  have "?d < r" using snoc.prems by (auto split: option.splits dest: digit_val_less)
  moreover have "(dval r cs + 1) * r \<le> r ^ length cs * r"
    using snoc by (intro mult_right_mono) auto
  ultimately show ?case by (simp add: algebra_simps)
qed simp

lemma digits_nonempty [simp]: "digits r n \<noteq> []"
  by (subst digits.simps) simp

lemma all_digits_append [simp]: "all_digits r (as @ bs) \<longleftrightarrow> all_digits r as \<and> all_digits r bs"
  by (auto simp: all_digits_def)

lemma all_digits_single: "all_digits r [c] \<longleftrightarrow> is_digit r c"
  by (simp add: all_digits_def)

lemma digits_ok: "2 \<le> r \<Longrightarrow> r \<le> 36 \<Longrightarrow> all_digits r (digits r n) \<and> dval r (digits r n) = n"
proof (induction r n rule: digits.induct)
  case (1 r n)
  show ?case
  proof (cases "n < r")
    case True
    with 1 show ?thesis by (simp add: digits.simps [of r n] all_digits_single dval_single)
  next
    case False
    with 1 have "all_digits r (digits r (n div r)) \<and> dval r (digits r (n div r)) = n div r"
      by simp
    with False 1 show ?thesis
      by (simp add: digits.simps [of r n] all_digits_single)
  qed
qed

lemmas all_digits_digits = digits_ok [THEN conjunct1]
  and dval_digits [simp] = digits_ok [THEN conjunct2]

lemma length_digits_le_iff:
  "2 \<le> r \<Longrightarrow> length (digits r n) \<le> Suc k \<longleftrightarrow> n < r ^ Suc k"
proof (induction r n arbitrary: k rule: digits.induct)
  case (1 r n)
  show ?case
  proof (cases "n < r")
    case True
    have "r ^ 1 \<le> r ^ Suc k" using "1.prems" by (intro power_increasing) auto
    with True have "n < r ^ Suc k" by (simp only: power_one_right)
    with True show ?thesis by (simp add: digits.simps [of r n] del: power_Suc)
  next
    case False
    show ?thesis
    proof (cases k)
      case 0
      with False 1 show ?thesis by (simp add: digits.simps [of r n])
    next
      case (Suc j)
      with False "1.IH" [of j] "1.prems"
      have "length (digits r n) \<le> Suc k \<longleftrightarrow> n div r < r ^ Suc j"
        by (simp add: digits.simps [of r n])
      also have "\<dots> \<longleftrightarrow> n < r ^ Suc k"
        using "1.prems" Suc by (simp add: div_less_iff_less_mult mult.commute)
      finally show ?thesis .
    qed
  qed
qed

text \<open>Digit strings as \<open>toString\<close> prints them, and appending such digits.\<close>

definition lower_digits :: "nat \<Rightarrow> string \<Rightarrow> bool" where
  "lower_digits r cs \<longleftrightarrow> (\<forall>c \<in> set cs. \<exists>d < r. c = digit_char d)"

lemma lower_digits_digits: "2 \<le> r \<Longrightarrow> lower_digits r (digits r n)"
proof (induction r n rule: digits.induct)
  case (1 r n)
  then have "\<exists>d < r. digit_char (n mod r) = digit_char d" by (intro exI [of _ "n mod r"]) simp
  with 1 show ?case by (subst digits.simps) (auto simp: lower_digits_def)
qed

lemma digits_append:
  assumes "2 \<le> r" and "r \<le> 36" and "0 < a" and "lower_digits r lo"
  shows "digits r (a * r ^ length lo + dval r lo) = digits r a @ lo"
  using assms(4)
proof (induction lo rule: rev_induct)
  case (snoc c lo)
  then obtain d where d: "d < r" "c = digit_char d" by (auto simp: lower_digits_def)
  let ?n = "a * r ^ length lo + dval r lo"
  have "1 \<le> ?n" using assms by (simp add: Suc_le_eq)
  then have "1 * r \<le> ?n * r" by (rule mult_right_mono) simp
  then have big: "\<not> ?n * r + d < r" by linarith
  have dm: "(?n * r + d) div r = ?n" "(?n * r + d) mod r = d"
    using d(1) assms(1) by auto
  have "a * r ^ length (lo @ [c]) + dval r (lo @ [c]) = ?n * r + d"
    using d assms by (simp add: algebra_simps)
  also have "digits r \<dots> = digits r ?n @ [digit_char d]"
    using big assms(1) dm by (subst digits.simps) simp
  finally show ?case using snoc d by (simp add: lower_digits_def)
qed simp

lemma takeWhile_all_digits [simp]:
  "all_digits r ds \<Longrightarrow> takeWhile (is_digit r) ds = ds"
  by (simp add: all_digits_def takeWhile_eq_all_conv)

text \<open>What the first character of a digit string cannot be.\<close>

lemma digit_not_special:
  assumes "r \<le> 16" and "is_digit r c"
  shows "\<not> is_ws c" "c \<noteq> CHR ''-''" "c \<noteq> CHR ''+''" "c \<noteq> CHR '',''" "c \<noteq> CHR ''x''" "c \<noteq> CHR ''X''"
    "c \<noteq> CHR ''_''" "c \<noteq> CHR '' ''"
  using assms by (auto simp: is_digit_def digit_val_def is_ws_def Let_def split: if_splits)

lemma parse_int_digits:
  assumes "r \<le> 16" and "all_digits r ds" and "ds \<noteq> []"
  shows "parse_int r ds = jsint (int (dval r ds))"
proof -
  obtain d ds' where ds: "ds = d # ds'" using assms by (cases ds) auto
  have d: "is_digit r d" using assms ds by (auto simp: all_digits_def)
  note sp = digit_not_special [OF assms(1) d]
  have x: "\<forall>c \<in> set ds'. c \<noteq> CHR ''x'' \<and> c \<noteq> CHR ''X''"
    using assms digit_not_special(5,6) ds unfolding all_digits_def by auto
  have "strip_0x r ds = ds"
    using x by (cases ds') (auto simp: strip_0x_def ds)
  moreover have "dropWhile is_ws ds = ds" using sp ds by simp
  ultimately show ?thesis using sp assms d
    by (simp add: parse_int_def Let_def ds all_digits_def takeWhile_eq_all_conv [THEN iffD2])
qed

lemma parse_int_0x:
  assumes "all_digits 16 ds" and "ds \<noteq> []"
  shows "parse_int 16 (''0x'' @ ds) = jsint (int (dval 16 ds))"
proof -
  have "\<not> is_ws CHR ''0''" by (simp add: is_ws_def)
  with assms show ?thesis by (simp add: parse_int_def Let_def strip_0x_def)
qed

lemma parse_int_0x_empty: "parse_int 16 ''0x'' = NaN"
  by (simp add: parse_int_def Let_def strip_0x_def is_ws_def)

lemma parse_int_int_to_string:
  assumes "2 \<le> r" and "r \<le> 16"
  shows "parse_int r (int_to_string r k) = jsint k"
proof (cases "k < 0")
  case False
  with assms show ?thesis
    by (simp add: int_to_string_def parse_int_digits all_digits_digits)
next
  case True
  let ?ds = "digits r (nat (- k))"
  have ds: "all_digits r ?ds" using assms by (simp add: all_digits_digits)
  then have "\<forall>c \<in> set ?ds. c \<noteq> CHR ''x'' \<and> c \<noteq> CHR ''X''"
    using assms digit_not_special(5,6) unfolding all_digits_def by auto
  then have x: "strip_0x r ?ds = ?ds"
    by (cases ?ds; cases "tl ?ds") (auto simp: strip_0x_def)
  have "\<not> is_ws CHR ''-''" by (simp add: is_ws_def)
  with True ds x assms show ?thesis by (simp add: int_to_string_def parse_int_def Let_def)
qed

text \<open>What follows the digits is ignored, as in \<open>12px\<close>.\<close>

lemma parse_int_trailing:
  assumes "rest = [] \<or> \<not> is_digit 10 (hd rest)"
  shows "parse_int 10 (int_to_string 10 k @ rest) = jsint k"
proof -
  have tw: "takeWhile (is_digit 10) (digits 10 n @ rest) = digits 10 n" for n
    using assms all_digits_digits [of 10 n] by (cases rest) (auto simp: all_digits_def takeWhile_tail)
  have first: "\<exists>d ds. digits 10 n = d # ds \<and> is_digit 10 d" for n
    using all_digits_digits [of 10 n] by (cases "digits 10 n") (auto simp: all_digits_def)
  show ?thesis
  proof (cases "k < 0")
    case True
    moreover have "\<not> is_ws CHR ''-''" by (simp add: is_ws_def)
    ultimately show ?thesis using tw [of "nat (- k)"]
      by (simp add: int_to_string_def parse_int_def Let_def strip_0x_def)
  next
    case False
    obtain d ds where d: "digits 10 (nat k) = d # ds" "is_digit 10 d" using first by blast
    note sp = digit_not_special [OF _ d(2)]
    from False d sp tw [of "nat k"] show ?thesis
      using dval_digits [of 10 "nat k"]
      by (simp add: int_to_string_def parse_int_def Let_def strip_0x_def)
  qed
qed

lemma num_to_string_ji [simp]: "num_to_string r (ji k) = int_to_string r k"
  by (simp add: ji_def)

text \<open>Reading a printed integer gives it back: the basis of every key of the form \<open>fork,change\<close>.\<close>

lemma parse_int_num_to_string [simp]:
  "safe k \<Longrightarrow> 2 \<le> r \<Longrightarrow> r \<le> 16 \<Longrightarrow> parse_int r (num_to_string r (ji k)) = ji k"
  by (simp add: parse_int_int_to_string)

lemma int_to_string_inj: "2 \<le> r \<Longrightarrow> r \<le> 16 \<Longrightarrow> safe a \<Longrightarrow> safe b \<Longrightarrow>
  int_to_string r a = int_to_string r b \<longleftrightarrow> a = b"
  by (metis ji_inject jsint_safe parse_int_int_to_string)

section \<open>Splitting\<close>

lemma js_split_nonempty [simp]: "js_split c s \<noteq> []"
  by (induction s) (auto split: list.splits)

lemma js_split_no_sep [simp]: "c \<notin> set s \<Longrightarrow> js_split c s = [s]"
  by (induction s) auto

lemma js_split_sep [simp]: "c \<notin> set a \<Longrightarrow> js_split c (a @ c # b) = a # js_split c b"
  by (induction a) auto

lemma comma_not_int_to_string [simp]: "2 \<le> r \<Longrightarrow> r \<le> 16 \<Longrightarrow> CHR '','' \<notin> set (int_to_string r k)"
  using all_digits_digits [of r] digit_not_special(4) [of r]
  by (auto simp: int_to_string_def all_digits_def)

end
