(* ===== verification/Bignum.thy ===== *)
theory Bignum
  imports JS_String
begin

text \<open>
  \<open>web/client/compatibility/bignum.js\<close>: instruction and data addresses are kept as hexadecimal
  strings, because 64-bit addresses do not fit a binary64 number; the functions here round, mask,
  add to, compare and canonicalise such strings, eight digits at a time.

  The abstraction function is \<open>hexv\<close>, the natural number an address string denotes. The lemmas
  say what each function does to that number, on the addresses of up to sixteen digits that the
  server sends; \<open>addr_arith\<close> is the contract the rest of the client relies on.
\<close>

section \<open>The functions of bignum.js\<close>

definition fhex :: "string \<Rightarrow> js_error + jsnum" where
  "fhex a = Inl (Thrown ''DANGER, fhex is a bad function'')"

definition fnum :: "string \<Rightarrow> jsnum" where
  "fnum a = parse_int 10 a"

definition hex2 :: "jsnum option \<Rightarrow> string" where
  "hex2 a = (case a of None \<Rightarrow> ''__''
     | Some n \<Rightarrow> (let ret = num_to_string 16 n in if length ret = 1 then ''0'' @ ret else ret))"

definition hexp :: "string \<Rightarrow> jsnum" where  \<comment> \<open>\<open>_fhex\<close>\<close>
  "hexp a = parse_int 16 a"

definition fdec :: "string \<Rightarrow> jsnum" where
  "fdec a = parse_int 10 a"

definition hex :: "jsnum option \<Rightarrow> string" where
  "hex a = (case a of None \<Rightarrow> ''''
     | Some n \<Rightarrow> (let n' = (if js_lt n (ji 0) then js_add n (ji 0x100000000) else n)
                in ''0x'' @ num_to_string 16 n'))"

definition bn_round :: "string \<Rightarrow> nat \<Rightarrow> string" where
  "bn_round s num = (if int (length s) - 2 \<le> int num then ''0x0''
     else js_substring s 0 (length s - num) @ replicate num CHR ''0'')"

definition bn_mod :: "string \<Rightarrow> nat \<Rightarrow> jsnum" where
  "bn_mod s cnt = (let s = drop 2 s
     in hexp (''0x'' @ drop (nat (max 0 (int (length s) - int cnt))) s))"

text \<open>
  The padding loop \<open>while (ret.length != 8) ret = "0" + ret\<close>: literally (it would not return on
  more than eight digits), and as the total function the model calls; \<open>pad8_loop_returns\<close> below
  shows that on everything \<open>bn_add\<close> passes the two agree.
\<close>

partial_function (option) pad8_loop :: "string \<Rightarrow> string option" where
  "pad8_loop ret = (if length ret \<noteq> 8 then pad8_loop (''0'' @ ret) else Some ret)"

definition pad8 :: "string \<Rightarrow> string" where
  "pad8 ret = replicate (8 - length ret) CHR ''0'' @ ret"

text \<open>The low word of \<open>bn_add\<close> after the addition: eight digits at most.\<close>

definition bn_low :: "jsnum \<Rightarrow> string" where
  "bn_low ls = drop 2 (hex (Some (js_and ls (ji 0xFFFFFFFF))))"

definition bn_add :: "string \<Rightarrow> jsnum \<Rightarrow> string" where
  "bn_add s num = (let s = drop 2 s in
     if length s \<le> 8 then hex (Some (js_add (hexp s) num))
     else
       let ts = hexp (''0x'' @ take (length s - 8) s);
           ls = hexp (''0x'' @ drop (length s - 8) s);
           ls = js_add ls num;
           ts = (if js_lt ls (ji 0) then js_sub ts (ji 1) else ts);
           ts = js_add ts (js_shr (js_div ls (ji 0x100000000)) 0);
           ret = pad8 (bn_low ls)
       in hex (Some ts) @ ret)"

definition bn_cmp :: "string \<Rightarrow> string \<Rightarrow> jsnum" where
  "bn_cmp a b = (if length a \<noteq> length b then ji (int (length a) - int (length b))
     else let aa = hexp (js_substring a 0 8); bb = hexp (js_substring b 0 8)
          in if \<not> js_eq aa bb then js_sub aa bb
             else js_sub (hexp (''0x'' @ drop 8 a)) (hexp (''0x'' @ drop 8 b)))"

definition bn_canonicalize :: "string \<Rightarrow> string" where
  "bn_canonicalize s = ''0x'' @ dropWhile (\<lambda>c. c = CHR ''0'') (drop 2 s)"

section \<open>Addresses\<close>

definition is_addr :: "string \<Rightarrow> bool" where
  "is_addr s \<longleftrightarrow> take 2 s = ''0x'' \<and> drop 2 s \<noteq> [] \<and> all_digits 16 (drop 2 s)"

definition hexv :: "string \<Rightarrow> nat" where
  "hexv s = dval 16 (drop 2 s)"

text \<open>Addresses of at most sixteen digits, and the canonical string of a number.\<close>

definition addr64 :: "string \<Rightarrow> bool" where
  "addr64 s \<longleftrightarrow> is_addr s \<and> length s \<le> 18"

definition addr_of :: "nat \<Rightarrow> string" where
  "addr_of n = ''0x'' @ digits 16 n"

text \<open>What evaluates these predicates on a given string.\<close>

lemmas addr_eval = addr64_def is_addr_def all_digits_def is_digit_def digit_val_def hexv_def dval_def

lemma is_addr_iff: "is_addr s \<longleftrightarrow> (\<exists>ds. s = ''0x'' @ ds \<and> ds \<noteq> [] \<and> all_digits 16 ds)"
proof
  assume "is_addr s"
  then have "s = ''0x'' @ drop 2 s" "drop 2 s \<noteq> []" "all_digits 16 (drop 2 s)"
    unfolding is_addr_def by (metis append_take_drop_id)+
  then show "\<exists>ds. s = ''0x'' @ ds \<and> ds \<noteq> [] \<and> all_digits 16 ds" by blast
qed (auto simp: is_addr_def)

lemma is_addrE:
  assumes "is_addr s"
  obtains ds where "s = ''0x'' @ ds" and "ds \<noteq> []" and "all_digits 16 ds" and "hexv s = dval 16 ds"
  using assms by (auto simp: is_addr_iff hexv_def)

lemma hexv_0x [simp]: "hexv (CHR ''0'' # CHR ''x'' # ds) = dval 16 ds"
  by (simp add: hexv_def)

lemma addr_of_ok [simp]: "is_addr (addr_of n)" "hexv (addr_of n) = n"
  by (auto simp: addr_of_def is_addr_def hexv_def all_digits_digits)

lemma length_addr_of_le: "length (addr_of n) \<le> k + 3 \<longleftrightarrow> n < 16 ^ Suc k"
  using length_digits_le_iff [of 16 n k] by (simp add: addr_of_def)

lemma addr64_addr_of [simp]: "addr64 (addr_of n) \<longleftrightarrow> n < 2 ^ 64"
  using length_addr_of_le [of n 15] by (simp add: addr64_def)

lemma hex_nonneg: "0 \<le> k \<Longrightarrow> hex (Some (ji k)) = addr_of (nat k)"
  by (simp add: hex_def addr_of_def int_to_string_def)

lemma hex_neg: "k < 0 \<Longrightarrow> - (2 ^ 32) \<le> k \<Longrightarrow> hex (Some (ji k)) = addr_of (nat (k + 2 ^ 32))"
  by (simp add: hex_def addr_of_def int_to_string_def safe_def)

section \<open>The padding loop returns\<close>

lemma js_and_mask: "js_and x (ji 0xFFFFFFFF) = ji (to_int32 x)"
proof -
  have "wrap32 0xFFFFFFFF = - 1" by (simp add: wrap32_def)
  then show ?thesis by (simp add: js_and_def)
qed

lemma to_int32_bounds: "- (2 ^ 31) \<le> to_int32 x \<and> to_int32 x < 2 ^ 31"
  using wrap32_bounds by (cases x) auto

lemma bn_low_eq: "bn_low x = digits 16 (nat (to_int32 x mod 2 ^ 32))"
proof (cases "to_int32 x < 0")
  case True
  then have "to_int32 x mod 2 ^ 32 = to_int32 x + 2 ^ 32"
    using to_int32_bounds [of x] mod_pos_pos_trivial [of "to_int32 x + 2 ^ 32" "2 ^ 32"] by simp
  with True show ?thesis
    using to_int32_bounds [of x] by (simp add: bn_low_def js_and_mask hex_neg addr_of_def)
next
  case False
  then show ?thesis
    using to_int32_bounds [of x] by (simp add: bn_low_def js_and_mask hex_nonneg addr_of_def)
qed

lemma length_bn_low: "length (bn_low x) \<le> 8"
proof -
  have "nat (to_int32 x mod 2 ^ 32) < 16 ^ Suc 7" by (simp add: nat_less_iff)
  then show ?thesis using length_digits_le_iff [of 16 _ 7] by (simp add: bn_low_eq)
qed

lemma pad8_loop_eq: "length r \<le> 8 \<Longrightarrow> pad8_loop r = Some (pad8 r)"
proof (induction "8 - length r" arbitrary: r)
  case 0
  then show ?case by (subst pad8_loop.simps) (simp add: pad8_def)
next
  case (Suc n)
  then have "pad8_loop (''0'' @ r) = Some (pad8 (''0'' @ r))"
    by (intro Suc.hyps) auto
  moreover have "8 - length r = Suc (8 - length (''0'' @ r))" using Suc.hyps(2) by simp
  ultimately show ?case
    using Suc.hyps(2) by (subst pad8_loop.simps) (auto simp: pad8_def replicate_append_same [symmetric])
qed

lemma dval_zeros: "dval 16 (replicate n CHR ''0'' @ ds) = dval 16 ds"
proof -
  have "dval 16 (replicate n CHR ''0'') = 0"
    by (induction n) (simp_all add: dval_Cons digit_val_def)
  then show ?thesis by (simp add: dval_append)
qed

lemma all_digits_zeros [simp]: "all_digits 16 (replicate n CHR ''0'')"
  by (auto simp: all_digits_def is_digit_def digit_val_def)

lemma pad8_bn_low:
  "length (pad8 (bn_low x)) = 8" "all_digits 16 (pad8 (bn_low x))"
  "dval 16 (pad8 (bn_low x)) = nat (to_int32 x mod 2 ^ 32)"
  using length_bn_low [of x]
  by (simp_all add: pad8_def dval_zeros) (simp_all add: bn_low_eq all_digits_digits)

lemma lower_pad8_bn_low: "lower_digits 16 (pad8 (bn_low x))"
proof -
  have "\<exists>d < 16. CHR ''0'' = digit_char d" by (intro exI [of _ 0]) simp
  then show ?thesis
    using lower_digits_digits [of 16] by (auto simp: pad8_def bn_low_eq lower_digits_def)
qed

section \<open>bn_add\<close>

lemma hexp_0x: "all_digits 16 ds \<Longrightarrow> ds \<noteq> [] \<Longrightarrow>
    hexp (CHR ''0'' # CHR ''x'' # ds) = jsint (int (dval 16 ds))"
  using parse_int_0x [of ds] by (simp add: hexp_def)

lemma hexp_digits: "all_digits 16 ds \<Longrightarrow> ds \<noteq> [] \<Longrightarrow> hexp ds = jsint (int (dval 16 ds))"
  by (simp add: hexp_def parse_int_digits)

lemma safe_dval16: "length ds \<le> 13 \<Longrightarrow> safe (int (dval 16 ds))"
proof -
  assume l: "length ds \<le> 13"
  have "dval 16 ds < 16 ^ length ds" by (rule dval_less) simp
  also have "\<dots> \<le> 16 ^ 13" using l by (intro power_increasing) auto
  finally show ?thesis by (simp add: safe_def)
qed

lemma all_digits_take: "all_digits r ds \<Longrightarrow> all_digits r (take n ds)"
  and all_digits_drop: "all_digits r ds \<Longrightarrow> all_digits r (drop n ds)"
  by (auto simp: all_digits_def dest: in_set_takeD in_set_dropD)

lemma bn_add_short:
  assumes "is_addr s" and "length s \<le> 10" and "\<bar>k\<bar> \<le> 2 ^ 32"
  shows "bn_add s (ji k) = addr_of (nat (if int (hexv s) + k < 0 then int (hexv s) + k + 2 ^ 32
    else int (hexv s) + k))"
proof -
  obtain ds where ds: "s = ''0x'' @ ds" "ds \<noteq> []" "all_digits 16 ds" "hexv s = dval 16 ds"
    using assms(1) by (rule is_addrE)
  have l: "length ds \<le> 8" using assms(2) ds(1) by simp
  have "dval 16 ds < 16 ^ length ds" by (rule dval_less) simp
  also have "\<dots> \<le> 16 ^ 8" using l by (intro power_increasing) auto
  finally have v: "int (dval 16 ds) < 2 ^ 32" by simp
  have "safe (int (dval 16 ds) + k)" using v assms(3) by (simp add: safe_def)
  then have "js_add (hexp ds) (ji k) = ji (int (dval 16 ds) + k)"
    using ds l by (simp add: hexp_digits safe_dval16)
  then show ?thesis
    using ds l v assms(3) by (simp add: bn_add_def hex_nonneg hex_neg)
qed

lemma js_shr_div32:
  assumes "safe l" and "- (2 ^ 32) < l"
  shows "js_shr (js_div (ji l) (ji 0x100000000)) 0 = ji (if l < 0 then 0 else l div 2 ^ 32)"
proof -
  have d: "js_div (ji l) (ji 0x100000000) = Fin (of_int l / 2 ^ 32)"
    using js_div_pow2 [OF assms(1), of 32] by simp
  have fl: "\<lfloor>(of_int l :: rat) / 2 ^ 32\<rfloor> = l div 2 ^ 32"
    using floor_divide_of_int_eq [of l "2 ^ 32", where 'a = rat] by simp
  show ?thesis
  proof (cases "l < 0")
    case True
    then have "- ((of_int l :: rat) / 2 ^ 32) = of_int (- l) / of_int (2 ^ 32)" by simp
    then have "\<lfloor>- ((of_int l :: rat) / 2 ^ 32)\<rfloor> = (- l) div 2 ^ 32"
      by (simp only: floor_divide_of_int_eq)
    also have "\<dots> = 0" using True assms(2) by simp
    finally show ?thesis using True
      by (simp add: d js_shr_def wrap32_def divide_less_0_iff)
  next
    case False
    have "l div 2 ^ 32 < 2 ^ 21" using assms(1) False
      by (simp add: safe_def div_less_iff_less_mult)
    moreover have "0 \<le> l div 2 ^ 32" using False by (simp add: pos_imp_zdiv_nonneg_iff)
    ultimately have "wrap32 (l div 2 ^ 32) = l div 2 ^ 32" by (intro wrap32_id) auto
    with False fl show ?thesis by (simp add: d js_shr_def divide_less_0_iff)
  qed
qed

lemma bn_add_long:
  assumes "addr64 s" and "10 < length s" and k: "- (2 ^ 32) < k" "k < 2 ^ 52"
    and nn: "0 \<le> int (hexv s) + k"
  shows "\<exists>hi lo. bn_add s (ji k) = addr_of hi @ lo \<and> length lo = 8 \<and> all_digits 16 lo \<and> lower_digits 16 lo
    \<and> int hi = (int (hexv s) + k) div 2 ^ 32 \<and> int (dval 16 lo) = (int (hexv s) + k) mod 2 ^ 32"
proof -
  obtain ds where ds: "s = ''0x'' @ ds" "ds \<noteq> []" "all_digits 16 ds" "hexv s = dval 16 ds"
    using assms(1) addr64_def is_addrE by blast
  let ?n = "length ds - 8"
  define t l where "t = int (dval 16 (take ?n ds))" and "l = int (dval 16 (drop ?n ds))"
  have len: "8 < length ds" "length ds \<le> 16" using assms ds(1) by (auto simp: addr64_def)
  have v: "int (hexv s) = t * 2 ^ 32 + l"
    using dval_append [of 16 "take ?n ds" "drop ?n ds"] len by (simp add: ds(4) t_def l_def)
  have tb: "0 \<le> t" "t < 2 ^ 32" "0 \<le> l" "l < 2 ^ 32"
  proof -
    have "dval 16 (take ?n ds) < 16 ^ length (take ?n ds)" by (rule dval_less) simp
    also have "\<dots> \<le> 16 ^ 8" using len by (intro power_increasing) auto
    finally show "t < 2 ^ 32" by (simp add: t_def)
    show "l < 2 ^ 32" using dval_less [of 16 "drop ?n ds"] len by (simp add: l_def)
  qed (simp_all add: t_def l_def)
  have ht: "hexp (''0x'' @ take ?n ds) = ji t" and hl: "hexp (''0x'' @ drop ?n ds) = ji l"
    using ds len
    by (simp_all add: t_def l_def hexp_0x all_digits_take all_digits_drop safe_dval16)
  have sl: "safe (l + k)" using tb k by (simp add: safe_def)
  define t' where "t' = (if l + k < 0 then t - 1 else t + (l + k) div 2 ^ 32)"
  have q: "(if l + k < 0 then 0 else (l + k) div 2 ^ 32) + (if l + k < 0 then - 1 else 0)
      = (l + k) div 2 ^ 32"
  proof (cases "l + k < 0")
    case True
    then have "(l + k) div 2 ^ 32 = - 1"
      using tb k by (intro int_div_pos_eq [where r = "l + k + 2 ^ 32"]) auto
    with True show ?thesis by simp
  qed simp
  have t': "t' = (int (hexv s) + k) div 2 ^ 32"
    using q by (auto simp: t'_def v algebra_simps split: if_splits)
  have t'0: "0 \<le> t'" using nn by (simp add: t' pos_imp_zdiv_nonneg_iff)
  have "(l + k) div 2 ^ 32 < 2 ^ 21" using tb k by (simp add: div_less_iff_less_mult)
  then have st: "safe t'" "safe (t - 1)" "safe t"
    using tb t'0 by (auto simp: t'_def safe_def)
  have "js_add (if js_lt (ji (l + k)) (ji 0) then js_sub (ji t) (ji 1) else ji t)
      (js_shr (js_div (ji (l + k)) (ji 0x100000000)) 0) = ji t'"
    using sl st tb k by (auto simp: js_shr_div32 t'_def intro: js_add_ji)
  then have "bn_add s (ji k) = addr_of (nat t') @ pad8 (bn_low (ji (l + k)))"
    using len sl t'0 ht hl by (simp add: bn_add_def ds(1) Let_def hex_nonneg)
  moreover have "int (dval 16 (pad8 (bn_low (ji (l + k))))) = (int (hexv s) + k) mod 2 ^ 32"
    using wrap32_mod [of "l + k"] by (simp add: pad8_bn_low v add.assoc)
  ultimately show ?thesis
    using pad8_bn_low lower_pad8_bn_low t' t'0 by (metis int_nat_eq)
qed

subsection \<open>Canonical addresses\<close>

definition canon64 :: "string \<Rightarrow> bool" where
  "canon64 s \<longleftrightarrow> s = addr_of (hexv s) \<and> hexv s < 2 ^ 64"

lemma canon64D: "canon64 s \<Longrightarrow> addr64 s"
  unfolding canon64_def by (metis addr64_addr_of)

lemma canon64_addr_of [simp]: "canon64 (addr_of n) \<longleftrightarrow> n < 2 ^ 64"
  by (simp add: canon64_def)

lemma canon64_inj: "canon64 a \<Longrightarrow> canon64 b \<Longrightarrow> hexv a = hexv b \<Longrightarrow> a = b"
  by (metis canon64_def)

lemma addr_of_append: "0 < hi \<Longrightarrow> lower_digits 16 lo \<Longrightarrow>
    addr_of hi @ lo = addr_of (hi * 16 ^ length lo + dval 16 lo)"
  by (simp add: addr_of_def digits_append)

lemma length_addr_of_less: "length (addr_of a) < length (addr_of b) \<Longrightarrow> a < b"
proof (rule ccontr)
  assume l: "length (addr_of a) < length (addr_of b)" and "\<not> a < b"
  obtain k where k: "length (addr_of a) = k + 3"
    using digits_nonempty [of 16 a] by (cases "length (digits 16 a)") (auto simp: addr_of_def)
  then have "a < 16 ^ Suc k" using length_addr_of_le [of a k] by simp
  with \<open>\<not> a < b\<close> have "length (addr_of b) \<le> k + 3" by (simp add: length_addr_of_le)
  with l k show False by simp
qed

lemma bn_add_val:
  assumes "addr64 s" and "- (2 ^ 32) < k" "k < 2 ^ 32" and "0 \<le> int (hexv s) + k"
  shows "is_addr (bn_add s (ji k)) \<and> int (hexv (bn_add s (ji k))) = int (hexv s) + k"
proof (cases "length s \<le> 10")
  case True
  with assms show ?thesis by (simp add: bn_add_short addr64_def)
next
  case False
  with assms bn_add_long [of s k] obtain hi lo where
    r: "bn_add s (ji k) = addr_of hi @ lo" "length lo = 8" "all_digits 16 lo"
      "int hi = (int (hexv s) + k) div 2 ^ 32" "int (dval 16 lo) = (int (hexv s) + k) mod 2 ^ 32"
    by auto
  have "hexv (bn_add s (ji k)) = hi * 2 ^ 32 + dval 16 lo"
    using r(1,2) by (simp add: addr_of_def dval_append)
  then have "int (hexv (bn_add s (ji k))) = int hi * 2 ^ 32 + int (dval 16 lo)" by simp
  then have "int (hexv (bn_add s (ji k))) = int (hexv s) + k"
    unfolding r(4,5) by (metis div_mult_mod_eq)
  with r show ?thesis by (simp add: addr_of_def is_addr_def all_digits_digits)
qed

lemma bn_add_canon:
  assumes "canon64 s" and "0 \<le> k" "k < 2 ^ 32" 
  shows "bn_add s (ji k) = addr_of (hexv s + nat k)"
proof (cases "length s \<le> 10")
  case True
  with assms canon64D show ?thesis by (simp add: bn_add_short addr64_def nat_add_distrib)
next
  case False
  then have big: "2 ^ 32 \<le> hexv s"
    using assms(1) length_addr_of_le [of "hexv s" 7] by (simp add: canon64_def)
  obtain hi lo where
    r: "bn_add s (ji k) = addr_of hi @ lo" "length lo = 8" "lower_digits 16 lo"
      "int hi = (int (hexv s) + k) div 2 ^ 32" "int (dval 16 lo) = (int (hexv s) + k) mod 2 ^ 32"
    using False assms(2,3) bn_add_long [OF canon64D [OF assms(1)], of k] by auto
  have "0 < int hi" using big assms(2) unfolding r(4) by (simp add: pos_imp_zdiv_pos_iff)
  then have "bn_add s (ji k) = addr_of (hi * 2 ^ 32 + dval 16 lo)"
    using r by (simp add: addr_of_append)
  moreover have "int (hi * 2 ^ 32 + dval 16 lo) = int (hexv s + nat k)"
    using assms(2) r(4,5) by (simp add: div_mult_mod_eq)
  ultimately show ?thesis by (metis of_nat_eq_iff)
qed

section \<open>bn_cmp\<close>

lemma split_compare:
  assumes "(l::nat) < B" and "l' < B"
  shows "h * B + l < h' * B + l' \<longleftrightarrow> h < h' \<or> h = h' \<and> l < l'"
proof -
  have "h * B + l < h' * B + l'" if "h < h'" "l < B" for h h' l l' :: nat
  proof -
    have "(h + 1) * B \<le> h' * B" using that by (intro mult_right_mono) auto
    with that show ?thesis by (simp add: algebra_simps)
  qed
  from this [of h h' l l'] this [of h' h l' l] assms show ?thesis
    by (cases h h' rule: linorder_cases) auto
qed

lemma bn_cmp_same_length:
  assumes "addr64 a" and "addr64 b" and "length a = length b"
  shows "(js_lt (bn_cmp a b) (ji 0) \<longleftrightarrow> hexv a < hexv b) \<and> (js_lt (ji 0) (bn_cmp a b) \<longleftrightarrow> hexv b < hexv a)"
proof -
  obtain x where x: "a = ''0x'' @ x" "x \<noteq> []" "all_digits 16 x" "hexv a = dval 16 x"
    using assms(1) addr64_def is_addrE by blast
  obtain y where y: "b = ''0x'' @ y" "y \<noteq> []" "all_digits 16 y" "hexv b = dval 16 y"
    using assms(2) addr64_def is_addrE by blast
  have len: "length x = length y" "length x \<le> 16" using assms x(1) y(1) by (auto simp: addr64_def)
  define hx lx hy ly where "hx = dval 16 (take 6 x)" and "lx = dval 16 (drop 6 x)"
    and "hy = dval 16 (take 6 y)" and "ly = dval 16 (drop 6 y)"
  let ?B = "16 ^ (length x - 6) :: nat"
  have vx: "dval 16 x = hx * ?B + lx" and vy: "dval 16 y = hy * ?B + ly"
    using dval_append [of 16 "take 6 x" "drop 6 x"] dval_append [of 16 "take 6 y" "drop 6 y"] len
    by (simp_all add: hx_def lx_def hy_def ly_def)
  have B: "lx < ?B" "ly < ?B"
    using dval_less [of 16 "drop 6 x"] dval_less [of 16 "drop 6 y"] len by (simp_all add: lx_def ly_def)
  have s: "safe (int hx)" "safe (int lx)" "safe (int hy)" "safe (int ly)"
    using len by (auto simp: hx_def lx_def hy_def ly_def intro!: safe_dval16)
  then have sd: "safe (int hx - int hy)" "safe (int lx - int ly)" by (auto simp: safe_def)
  have h6: "hexp (js_substring a 0 8) = ji (int hx)" "hexp (js_substring b 0 8) = ji (int hy)"
    using x y s by (simp_all add: js_substring_def hexp_0x all_digits_take hx_def hy_def)
  have cmp: "hexv a < hexv b \<longleftrightarrow> hx < hy \<or> hx = hy \<and> lx < ly"
    "hexv b < hexv a \<longleftrightarrow> hy < hx \<or> hy = hx \<and> ly < lx"
    using split_compare [OF B] split_compare [OF B(2,1)] by (simp_all add: x(4) y(4) vx vy)
  show ?thesis
  proof (cases "6 < length x")
    case True
    then have "hexp (''0x'' @ drop 8 a) = ji (int lx)" "hexp (''0x'' @ drop 8 b) = ji (int ly)"
      using x y s len by (simp_all add: hexp_0x all_digits_drop lx_def ly_def)
    then show ?thesis using assms(3) h6 sd cmp by (auto simp: bn_cmp_def)
  next
    case False
    then have "drop 8 a = []" "drop 8 b = []" "lx = 0" "ly = 0"
      using x y len by (simp_all add: lx_def ly_def)
    moreover have "hexp ''0x'' = NaN" by (simp add: hexp_def parse_int_0x_empty)
    moreover have "\<not> js_lt (ji 0) NaN" by (simp add: ji_def)
    ultimately show ?thesis using assms(3) h6 sd cmp by (auto simp: bn_cmp_def js_sub_def)
  qed
qed

lemma bn_cmp_canon:
  assumes "canon64 a" and "canon64 b"
  shows "(js_lt (bn_cmp a b) (ji 0) \<longleftrightarrow> hexv a < hexv b) \<and> (js_lt (ji 0) (bn_cmp a b) \<longleftrightarrow> hexv b < hexv a)"
proof (cases "length a = length b")
  case True
  with assms show ?thesis by (intro bn_cmp_same_length canon64D)
next
  case False
  then have "length a < length b \<and> hexv a < hexv b \<or> length b < length a \<and> hexv b < hexv a"
    using assms length_addr_of_less unfolding canon64_def by (metis linorder_neqE_nat)
  with False show ?thesis by (auto simp: bn_cmp_def)
qed

text \<open>
  Of an address with itself: zero beyond six digits; of up to six digits the second halves are empty,
  and the difference is \<open>NaN\<close>.
\<close>

lemma bn_cmp_refl:
  assumes "addr64 a"
  shows "bn_cmp a a = (if length a \<le> 8 then NaN else ji 0)"
proof -
  obtain x where x: "a = ''0x'' @ x" "x \<noteq> []" "all_digits 16 x"
    using assms addr64_def is_addrE by blast
  have len: "length x \<le> 16" using assms x(1) by (simp add: addr64_def)
  have h6: "hexp (js_substring a 0 8) = ji (int (dval 16 (take 6 x)))"
    using x len by (simp add: js_substring_def hexp_0x all_digits_take safe_dval16)
  show ?thesis
  proof (cases "6 < length x")
    case True
    then have "safe (int (dval 16 (drop 6 x)))" using len by (intro safe_dval16) simp
    with True have "hexp (''0x'' @ drop 8 a) = ji (int (dval 16 (drop 6 x)))"
      using x by (simp add: hexp_0x all_digits_drop)
    with True h6 x show ?thesis by (simp add: bn_cmp_def safe_def)
  next
    case False
    moreover have "hexp ''0x'' = NaN" by (simp add: hexp_def parse_int_0x_empty)
    ultimately show ?thesis using h6 x by (simp add: bn_cmp_def js_sub_def)
  qed
qed

section \<open>bn_round and bn_mod\<close>

lemma dval_take_drop:
  assumes "n \<le> length ds"
  shows "dval 16 (take (length ds - n) ds) = dval 16 ds div 16 ^ n"
    and "dval 16 (drop (length ds - n) ds) = dval 16 ds mod 16 ^ n"
proof -
  have "dval 16 ds = dval 16 (take (length ds - n) ds) * 16 ^ n + dval 16 (drop (length ds - n) ds)"
    using dval_append [of 16 "take (length ds - n) ds" "drop (length ds - n) ds"] assms by simp
  moreover have "dval 16 (drop (length ds - n) ds) < 16 ^ n"
    using dval_less [of 16 "drop (length ds - n) ds"] assms by simp
  ultimately show "dval 16 (take (length ds - n) ds) = dval 16 ds div 16 ^ n"
    and "dval 16 (drop (length ds - n) ds) = dval 16 ds mod 16 ^ n" by auto
qed

lemma dval_le_length: "length ds \<le> n \<Longrightarrow> dval 16 ds < 16 ^ n"
  by (rule less_le_trans [OF dval_less power_increasing]) auto

lemma lower_0: "\<exists>d < 16. CHR ''0'' = digit_char d"
  by (intro exI [of _ 0]) simp

lemma bn_round_val:
  assumes "is_addr s"
  shows "is_addr (bn_round s n) \<and> hexv (bn_round s n) = hexv s div 16 ^ n * 16 ^ n"
proof -
  obtain ds where ds: "s = ''0x'' @ ds" "ds \<noteq> []" "all_digits 16 ds" "hexv s = dval 16 ds"
    using assms by (rule is_addrE)
  show ?thesis
  proof (cases "length ds \<le> n")
    case True
    then show ?thesis
      using ds dval_le_length [OF True]
      by (simp add: bn_round_def is_addr_def all_digits_def is_digit_def digit_val_def dval_def)
  next
    case False
    then have s: "js_substring s 0 (length s - n) = ''0x'' @ take (length ds - n) ds"
      using ds(1) by (simp add: js_substring_def Suc_diff_le)
    have "dval 16 (replicate n CHR ''0'') = 0" using dval_zeros [of n "[]"] by simp
    with False s ds show ?thesis
      by (simp add: bn_round_def is_addr_def all_digits_take dval_append dval_take_drop)
  qed
qed

lemma bn_mod_val:
  assumes "is_addr s" and "1 \<le> n" and "n \<le> 13"
  shows "bn_mod s n = ji (int (hexv s mod 16 ^ n))"
proof -
  obtain ds where ds: "s = ''0x'' @ ds" "ds \<noteq> []" "all_digits 16 ds" "hexv s = dval 16 ds"
    using assms(1) by (rule is_addrE)
  show ?thesis
  proof (cases "length ds \<le> n")
    case True
    then have "nat (max 0 (int (length ds) - int n)) = 0" by simp
    then show ?thesis
      using ds dval_le_length [OF True] assms True
      by (simp add: bn_mod_def hexp_0x safe_dval16)
  next
    case False
    then have "nat (max 0 (int (length ds) - int n)) = length ds - n" by simp
    then show ?thesis
      using False ds assms safe_dval16 [of "drop (length ds - n) ds"]
      by (simp add: bn_mod_def hexp_0x all_digits_drop dval_take_drop)
  qed
qed

lemma take_digits:
  "2 \<le> r \<Longrightarrow> k < length (digits r n) \<Longrightarrow> take (length (digits r n) - k) (digits r n) = digits r (n div r ^ k)"
proof (induction k arbitrary: n)
  case (Suc k)
  then have "\<not> n < r" by (subst (asm) digits.simps) (auto split: if_splits)
  then have "digits r n = digits r (n div r) @ [digit_char (n mod r)]"
    using Suc.prems(1) by (subst digits.simps) simp
  with Suc show ?case by (simp add: div_mult2_eq)
qed simp

lemma digits_div_zeros: "0 < a \<Longrightarrow> digits 16 (a * 16 ^ n) = digits 16 a @ replicate n CHR ''0''"
  using digits_append [of 16 a "replicate n CHR ''0''"] dval_zeros [of n "[]"]
  by (simp add: lower_digits_def lower_0)

lemma bn_round_addr_of: "bn_round (addr_of v) n = addr_of (v div 16 ^ n * 16 ^ n)"
proof (cases "length (digits 16 v) \<le> n")
  case True
  then have "v < 16 ^ n" using dval_le_length [OF True] by simp
  with True show ?thesis by (simp add: bn_round_def addr_of_def digits.simps [of 16 0])
next
  case False
  show ?thesis
  proof (cases "n = 0")
    case True
    then show ?thesis by (simp add: bn_round_def addr_of_def js_substring_def)
  next
    case n: False
    then have "\<not> v < 16 ^ n" using False length_digits_le_iff [of 16 v "n - 1"] by (cases n) auto
    then have p: "0 < v div 16 ^ n" by (simp add: div_greater_zero_iff)
    have "js_substring (addr_of v) 0 (length (addr_of v) - n) = ''0x'' @ digits 16 (v div 16 ^ n)"
      using False take_digits [of 16 n v] by (simp add: js_substring_def addr_of_def Suc_diff_le)
    with False p show ?thesis by (simp add: bn_round_def addr_of_def digits_div_zeros)
  qed
qed

section \<open>bn_canonicalize\<close>

lemma digits_unique:
  assumes "lower_digits 16 (c # ds)" and "c \<noteq> CHR ''0''"
  shows "digits 16 (dval 16 (c # ds)) = c # ds"
proof -
  obtain d where d: "d < 16" "c = digit_char d" using assms(1) by (auto simp: lower_digits_def)
  then have "0 < d" using assms(2) by (cases d) auto
  then show ?thesis
    using digits_append [of 16 d ds] assms(1) d by (simp add: dval_Cons lower_digits_def digits.simps [of 16 d])
qed

lemma dval_dropWhile_0: "dval 16 (dropWhile (\<lambda>c. c = CHR ''0'') ds) = dval 16 ds"
  by (induction ds) (simp_all add: dval_Cons digit_val_def)

lemma bn_canonicalize_val:
  assumes "lower_digits 16 ds"
  shows "bn_canonicalize (''0x'' @ ds) = (if dval 16 ds = 0 then ''0x'' else addr_of (dval 16 ds))"
proof (cases "dropWhile (\<lambda>c. c = CHR ''0'') ds")
  case Nil
  then have "dval 16 ds = 0" by (metis dval_Nil dval_dropWhile_0)
  with Nil show ?thesis by (simp add: bn_canonicalize_def del: dropWhile_eq_Nil_conv)
next
  case (Cons c ds')
  then have c: "c \<noteq> CHR ''0''" and "ds = takeWhile (\<lambda>c. c = CHR ''0'') ds @ c # ds'"
    by (simp_all add: dropWhile_eq_Cons_conv)
  then have "set (c # ds') \<subseteq> set ds" by (metis set_append Un_upper2)
  with assms have "digits 16 (dval 16 (c # ds')) = c # ds'"
    using c by (intro digits_unique) (auto simp: lower_digits_def)
  then have d: "digits 16 (dval 16 ds) = c # ds'"
    using dval_dropWhile_0 [of ds] Cons by simp
  have "dval 16 ds \<noteq> 0" using c d by (intro notI) (simp add: digits.simps [of 16 0])
  with d Cons show ?thesis by (simp add: bn_canonicalize_def addr_of_def)
qed

lemma hex2_byte:
  assumes "0 \<le> b" and "b < 256"
  shows "length (hex2 (Some (ji b))) = 2 \<and> lower_digits 16 (hex2 (Some (ji b)))
    \<and> dval 16 (hex2 (Some (ji b))) = nat b"
proof -
  have l: "length (digits 16 (nat b)) \<le> 2"
    using assms length_digits_le_iff [of 16 "nat b" 1] by (simp add: nat_less_iff)
  moreover have "0 < length (digits 16 (nat b))" by simp
  ultimately show ?thesis
    using assms lower_0 lower_digits_digits [of 16 "nat b"]
    by (auto simp: hex2_def int_to_string_def Let_def dval_Cons digit_val_def lower_digits_def
        simp del: length_greater_0_conv)
qed

section \<open>The contract of address arithmetic\<close>

text \<open>
  What the clients of bignum.js rely on: on good addresses, adding a small non-negative number and
  comparing act on the denoted number, and an address is determined by that number.
\<close>

locale addr_arith =
  fixes add :: "'a \<Rightarrow> jsnum \<Rightarrow> 'a"
    and cmp :: "'a \<Rightarrow> 'a \<Rightarrow> jsnum"
    and val :: "'a \<Rightarrow> nat"
    and ok :: "'a \<Rightarrow> bool"
    and bound :: nat
  assumes val_bound: "ok a \<Longrightarrow> val a < bound"
    and val_inj: "ok a \<Longrightarrow> ok b \<Longrightarrow> val a = val b \<Longrightarrow> a = b"
    and add_ok: "ok a \<Longrightarrow> k < 2 ^ 32 \<Longrightarrow> val a + k < bound \<Longrightarrow>
      ok (add a (ji (int k))) \<and> val (add a (ji (int k))) = val a + k"
    and cmp_lt: "ok a \<Longrightarrow> ok b \<Longrightarrow> js_lt (cmp a b) (ji 0) \<longleftrightarrow> val a < val b"
    and cmp_gt: "ok a \<Longrightarrow> ok b \<Longrightarrow> js_lt (ji 0) (cmp a b) \<longleftrightarrow> val b < val a"

interpretation bn: addr_arith bn_add bn_cmp hexv canon64 "2 ^ 64"
proof unfold_locales
  show "hexv a < 2 ^ 64" if "canon64 a" for a using that by (simp add: canon64_def)
  show "a = b" if "canon64 a" "canon64 b" "hexv a = hexv b" for a b
    using that by (rule canon64_inj)
  show "canon64 (bn_add a (ji (int k))) \<and> hexv (bn_add a (ji (int k))) = hexv a + k"
    if "canon64 a" "k < 2 ^ 32" "hexv a + k < 2 ^ 64" for a k
    using that bn_add_canon [of a "int k"] by simp
qed (simp_all add: bn_cmp_canon)

text \<open>The loop that pads the low word to eight digits ends and gives exactly eight digits.\<close>

lemma bn_add_padding_ends:
"pad8_loop (bn_low x) = Some (pad8 (bn_low x)) \<and> length (pad8 (bn_low x)) = 8"
  using pad8_loop_eq [OF length_bn_low] length_bn_low [of x] by (simp add: pad8_def)

end
