(* ===== verification/Client_State.thy ===== *)
theory Client_State
  imports Fakemeteor Bignum
begin

text \<open>
  The state the scripts of the client share: the reactive engine (\<open>Fakemeteor\<close>), the browser's
  session history, the messages emitted to the server, the global variables of the scripts
  (\<open>flags\<close>, \<open>overlays\<close>, \<open>traces\<close>, \<open>names_cache\<close>, \<open>current_regs\<close>, \<open>arch\<close>) and the parts of
  the page they read back or draw. Session values are a datatype with one constructor per kind of
  value the scripts store; each session key only ever holds one kind.
\<close>

section \<open>Values\<close>

type_synonym forks = "(string \<times> jsnum \<times> jsnum) list"  \<comment> \<open>\<open>max_clnum\<close>: fork \<open>\<mapsto>\<close> \<open>[min, max]\<close>, in enumeration order\<close>

datatype sval =
    VNum jsnum
  | VStr string
  | VBool bool
  | VPair jsnum jsnum                   \<comment> \<open>a two-element array of numbers: \<open>cview\<close>, \<open>sview\<close>\<close>
  | VForks forks
  | VPmaps "(string \<times> string) list"   \<comment> \<open>\<open>pmaps\<close>: page address \<open>\<mapsto>\<close> kind of memory\<close>
  | VArr "sval list"
  | VObj "(string \<times> sval) list"

text \<open>Property name of a value used as an index, and its value as a number.\<close>

fun prop_key :: "sval option \<Rightarrow> string" where
  "prop_key None = ''undefined''"
| "prop_key (Some (VNum n)) = num_to_string 10 n"
| "prop_key (Some (VStr s)) = s"
| "prop_key (Some (VBool b)) = (if b then ''true'' else ''false'')"
| "prop_key (Some (VPair a b)) = num_to_string 10 a @ '','' @ num_to_string 10 b"
| "prop_key (Some _) = ''[object Object]''"

fun num_of :: "sval option \<Rightarrow> jsnum" where
  "num_of (Some (VNum n)) = n"
| "num_of (Some (VBool b)) = ji (if b then 1 else 0)"
| "num_of _ = NaN"

fun pair_of :: "sval option \<Rightarrow> (jsnum \<times> jsnum) option" where
  "pair_of (Some (VPair a b)) = Some (a, b)"
| "pair_of _ = None"

fun forks_of :: "sval option \<Rightarrow> forks option" where
  "forks_of (Some (VForks f)) = Some f"
| "forks_of _ = None"

fun pmaps_of :: "sval option \<Rightarrow> (string \<times> string) list option" where
  "pmaps_of (Some (VPmaps m)) = Some m"
| "pmaps_of _ = None"

fun str_of :: "sval option \<Rightarrow> string option" where
  "str_of (Some (VStr s)) = Some s"
| "str_of _ = None"

definition bool_of :: "sval option \<Rightarrow> bool" where
  "bool_of v \<longleftrightarrow> v = Some (VBool True)"

text \<open>
  The operator \<open>!=\<close>: numbers, strings and booleans by value, arrays and objects by identity, so
  that a restored array always differs from the one in the session.
\<close>

fun loose_neq :: "sval option \<Rightarrow> sval option \<Rightarrow> bool" where
  "loose_neq None None = False"
| "loose_neq (Some (VNum a)) (Some (VNum b)) = (\<not> js_eq a b)"
| "loose_neq (Some (VStr a)) (Some (VStr b)) = (a \<noteq> b)"
| "loose_neq (Some (VBool a)) (Some (VBool b)) = (a \<noteq> b)"
| "loose_neq _ _ = True"

lemma loose_neq_same: "\<not> loose_neq a b \<Longrightarrow> a = b"
  by (induction a b rule: loose_neq.induct) (auto simp: js_eq_def)

section \<open>The functions given to Deps.autorun\<close>

datatype arun =
    A_history | A_rehighlight
  | A_navigateiaddr | A_select_fork | A_update_controls
  | A_setaddress_ida | A_getinstructions
  | A_getmemory | A_getregisters | A_datachanges
  | A_bounds | A_change | A_getchanges_iaddr | A_getchanges_daddr
  | A_redraw_strace | A_sview
  | A_pmaps | A_hflag_iaddr | A_hflag_daddr
  | A_static

text \<open>The scripts register finitely many functions, which bounds every queue without repetitions.\<close>

instantiation arun :: enum
begin

definition enum_arun :: "arun list" where
  "enum_arun = [A_history, A_rehighlight, A_navigateiaddr, A_select_fork, A_update_controls,
    A_setaddress_ida, A_getinstructions, A_getmemory, A_getregisters, A_datachanges,
    A_bounds, A_change, A_getchanges_iaddr, A_getchanges_daddr, A_redraw_strace, A_sview,
    A_pmaps, A_hflag_iaddr, A_hflag_daddr, A_static]"

definition enum_all_arun :: "(arun \<Rightarrow> bool) \<Rightarrow> bool" where
  "enum_all_arun P = list_all P enum_class.enum"

definition enum_ex_arun :: "(arun \<Rightarrow> bool) \<Rightarrow> bool" where
  "enum_ex_arun P = list_ex P enum_class.enum"

instance
proof
  show u: "(UNIV :: arun set) = set enum_class.enum"
  proof (intro equalityI subsetI)
    fix f :: arun
    show "f \<in> set enum_class.enum" by (cases f) (simp_all add: enum_arun_def)
  qed simp
  show "distinct (enum_class.enum :: arun list)" by (simp add: enum_arun_def)
  show "enum_class.enum_all P = Ball UNIV P" "enum_class.enum_ex P = Bex UNIV P" for P :: "arun \<Rightarrow> bool"
    unfolding u by (simp_all add: enum_all_arun_def enum_ex_arun_def list_all_iff list_ex_iff)
qed

end

lemma distinct_arun: "distinct (fs :: arun list) \<Longrightarrow> length fs \<le> 20"
proof -
  assume "distinct fs"
  then have "length fs = card (set fs)" by (simp add: distinct_card)
  also have "\<dots> \<le> card (UNIV :: arun set)" by (intro card_mono) auto
  also have "\<dots> = 20" by (simp add: card_UNIV_length_enum enum_arun_def)
  finally show ?thesis .
qed

section \<open>Page elements and records of the scripts\<close>

record syscall =
  sc_clnum :: jsnum
  sc_sc :: string

record register =
  r_name :: string
  r_display_name :: string
  r_value :: string
  r_num :: nat
  r_address :: jsnum
  r_size :: jsnum
  r_regactions :: string

text \<open>One flag of a timeline; its position is a number of pixels.\<close>

record flag_div =
  fd_clnum :: jsnum
  fd_sty :: string
  fd_pos :: jsnum

record vtel =
  vt_bg :: string
  vt_bgsize :: "jsnum option"
  vt_bgpos :: "jsnum option"
  vt_height :: "jsnum option"
  vt_top :: "jsnum option"
  vt_flags :: "flag_div list"

record hflag =
  hf_name :: string
  hf_chunk :: string
  hf_ontop :: bool
  hf_color :: string
  hf_left :: jsnum

text \<open>An element of class \<open>addr\<close>: its class attribute, whether it got the class \<open>name\<close>, its text.\<close>

record addr_el =
  ae_class :: string
  ae_name :: bool
  ae_html :: string

text \<open>The WebSocket to IDA: the variable \<open>ws\<close> and the socket's \<open>readyState\<close>.\<close>

datatype ws_state = WS_Undefined | WS_Connecting | WS_Open | WS_Closing | WS_Closed

text \<open>A coloured mark that a register points to a cell of the memory view: cell, colour, position.\<close>

record rflag =
  rf_cell :: string
  rf_color :: "string option"
  rf_left :: int

section \<open>The world\<close>

type_synonym hstate = "(string \<times> sval option) list"
type_synonym emission = "string \<times> sval option list"

record world = "(arun, sval) meteor" +
  hist_back :: "hstate option list"     \<comment> \<open>entries behind the current one, nearest first\<close>
  hist_cur :: "hstate option"           \<comment> \<open>\<open>history.state\<close>\<close>
  hist_fwd :: "hstate option list"
  hist_timers :: nat                    \<comment> \<open>armed one-second timers of the history autorun\<close>
  emits :: "emission list"              \<comment> \<open>\<open>stream.emit\<close>, in order\<close>
  flags :: "(string \<times> string list) list"
  overlays :: "(string \<times> jsnum \<times> jsnum \<times> string) list"
  traces :: "(string \<times> syscall list) list"
  names_cache :: "(string \<times> string) list"
  current_regs :: "register list option"
  arch :: "(string option list \<times> jsnum) option"
  box_height :: "jsnum option"          \<comment> \<open>\<open>offsetHeight\<close> of \<open>#vtimelinebox\<close>, if it exists\<close>
  vtimelines :: "(string \<times> vtel) list"
  pchunk_dom :: "(string \<times> string) list list"  \<comment> \<open>the page boxes of \<open>#haddrline\<close>: address, class\<close>
  hflags :: "hflag list"
  drag_down :: jsnum                    \<comment> \<open>\<open>down\<close> and \<open>downforknum\<close> of \<open>register_drag_zoom\<close>\<close>
  drag_fork :: jsnum
  addr_els :: "addr_el list"            \<comment> \<open>the elements of class \<open>addr\<close>\<close>
  hl_classes :: "string list"           \<comment> \<open>classes whose elements carry \<open>autohighlight\<close>\<close>
  hli_classes :: "string list"          \<comment> \<open>classes whose elements carry \<open>autohighlighti\<close>\<close>
  mem_cells :: "(string \<times> nat) list"   \<comment> \<open>the cells of \<open>#hexdump\<close>: id, number of child elements\<close>
  reg_cells :: "string list"            \<comment> \<open>ids of the elements of class \<open>register\<close>\<close>
  rflags :: "rflag list"
  ws_st :: ws_state
  ws_onopen :: "string option"          \<comment> \<open>what the socket sends when it opens\<close>
  ws_sent :: "string list"
  doms :: "string \<Rightarrow> string"            \<comment> \<open>inner HTML (or input value) of the other elements, by id\<close>

definition emit :: "string \<Rightarrow> sval option list \<Rightarrow> world \<Rightarrow> world" where
  "emit name args w = w\<lparr>emits := emits w @ [(name, args)]\<rparr>"

definition set_dom :: "string \<Rightarrow> string \<Rightarrow> world \<Rightarrow> world" where
  "set_dom i h w = w\<lparr>doms := (doms w)(i := h)\<rparr>"

type_synonym 'a handler = "world \<Rightarrow> 'a \<times> world"

text \<open>Running two statements in sequence where the first may throw.\<close>

definition and_then :: "world \<times> js_error option \<Rightarrow> (world \<Rightarrow> world \<times> js_error option) \<Rightarrow> world \<times> js_error option" where
  "and_then r g = (case r of (w, None) \<Rightarrow> g w | (w, Some e) \<Rightarrow> (w, Some e))"

lemma and_then_simps [simp]: "and_then (w, None) g = g w" "and_then (w, Some e) g = (w, Some e)"
  by (simp_all add: and_then_def)

section \<open>Frame facts\<close>

text \<open>The session operations leave the client's own fields alone.\<close>

lemma world_more_frame:
  assumes "meteor.more w' = meteor.more w"
  shows "hist_back w' = hist_back w" "hist_cur w' = hist_cur w" "hist_fwd w' = hist_fwd w"
    "hist_timers w' = hist_timers w" "emits w' = emits w" "flags w' = flags w"
    "overlays w' = overlays w" "traces w' = traces w" "names_cache w' = names_cache w"
    "current_regs w' = current_regs w" "arch w' = arch w" "box_height w' = box_height w"
    "vtimelines w' = vtimelines w" "pchunk_dom w' = pchunk_dom w" "hflags w' = hflags w"
    "drag_down w' = drag_down w" "drag_fork w' = drag_fork w" "addr_els w' = addr_els w"
    "hl_classes w' = hl_classes w" "hli_classes w' = hli_classes w" "doms w' = doms w"
    "mem_cells w' = mem_cells w" "reg_cells w' = reg_cells w" "rflags w' = rflags w"
    "ws_st w' = ws_st w" "ws_onopen w' = ws_onopen w" "ws_sent w' = ws_sent w"
  using assms by (cases w; cases w'; simp)+

lemmas session_set_world [simp] = world_more_frame [OF session_set_frame(3)]

lemma session_get_world: "meteor.more (snd (session_get k d w)) = meteor.more w"
  by (simp add: session_get_def Let_def split: option.splits)

lemmas session_get_client [simp] = world_more_frame [OF session_get_world]

lemma session_get_engine [simp]:
  "msession (snd (session_get k d w)) = msession w" "mpend (snd (session_get k d w)) = mpend w"
  "timers (snd (session_get k d w)) = timers w" "mdeps (snd (session_get k d w)) = mdeps w"
  "minv (snd (session_get k d w)) = minv w"
  by (simp_all add: session_get_def Let_def minv_def split: option.splits)

lemma minv_client [simp]:
  "minv (w\<lparr>hist_back := x1\<rparr>) = minv w" "minv (w\<lparr>hist_cur := x2\<rparr>) = minv w"
  "minv (w\<lparr>hist_fwd := x3\<rparr>) = minv w" "minv (w\<lparr>hist_timers := x4\<rparr>) = minv w"
  "minv (w\<lparr>emits := x5\<rparr>) = minv w" "minv (w\<lparr>flags := x6\<rparr>) = minv w"
  "minv (w\<lparr>overlays := x7\<rparr>) = minv w" "minv (w\<lparr>traces := x8\<rparr>) = minv w"
  "minv (w\<lparr>names_cache := x9\<rparr>) = minv w" "minv (w\<lparr>current_regs := x10\<rparr>) = minv w"
  "minv (w\<lparr>arch := x11\<rparr>) = minv w" "minv (w\<lparr>vtimelines := x12\<rparr>) = minv w"
  "minv (w\<lparr>pchunk_dom := x13\<rparr>) = minv w" "minv (w\<lparr>hflags := x14\<rparr>) = minv w"
  "minv (w\<lparr>drag_down := x15\<rparr>) = minv w" "minv (w\<lparr>drag_fork := x16\<rparr>) = minv w"
  "minv (w\<lparr>addr_els := x18\<rparr>) = minv w" "minv (w\<lparr>hl_classes := x19\<rparr>) = minv w"
  "minv (w\<lparr>hli_classes := x20\<rparr>) = minv w" "minv (w\<lparr>doms := x17\<rparr>) = minv w"
  "minv (w\<lparr>mem_cells := x21\<rparr>) = minv w" "minv (w\<lparr>reg_cells := x22\<rparr>) = minv w"
  "minv (w\<lparr>rflags := x23\<rparr>) = minv w" "minv (w\<lparr>ws_st := x24\<rparr>) = minv w"
  "minv (w\<lparr>ws_onopen := x25\<rparr>) = minv w" "minv (w\<lparr>ws_sent := x26\<rparr>) = minv w"
  by (simp_all add: minv_def)

lemma emit_minv [simp]: "minv (emit n a w) = minv w"
  by (simp add: emit_def)

lemma set_dom_minv [simp]: "minv (set_dom i h w) = minv w"
  by (simp add: set_dom_def)

text \<open>
  The state of the engine, up to which keys are being tracked. Most operations of the client leave
  it alone, and then they keep the invariant and the session too.
\<close>

definition engine :: "world \<Rightarrow> (string \<Rightarrow> arun list) \<times> arun list \<times> nat option \<times> (string \<Rightarrow> sval option) \<times> nat list \<times> nat \<times> bool" where
  "engine w = (mdeps w, mpend w, mtimeout w, msession w, timers w, next_timer w, mtrack w = None)"

lemma engineD:
  assumes "engine w' = engine w"
  shows "mdeps w' = mdeps w" "mpend w' = mpend w" "msession w' = msession w" "timers w' = timers w"
    "mtrack w' = None \<longleftrightarrow> mtrack w = None" "minv w' = minv w"
  using assms by (simp_all add: engine_def minv_def)

lemma engine_client [simp]:
  "engine (w\<lparr>hist_back := x1\<rparr>) = engine w" "engine (w\<lparr>hist_cur := x2\<rparr>) = engine w"
  "engine (w\<lparr>hist_fwd := x3\<rparr>) = engine w" "engine (w\<lparr>hist_timers := x4\<rparr>) = engine w"
  "engine (w\<lparr>emits := x5\<rparr>) = engine w" "engine (w\<lparr>flags := x6\<rparr>) = engine w"
  "engine (w\<lparr>overlays := x7\<rparr>) = engine w" "engine (w\<lparr>traces := x8\<rparr>) = engine w"
  "engine (w\<lparr>names_cache := x9\<rparr>) = engine w" "engine (w\<lparr>current_regs := x10\<rparr>) = engine w"
  "engine (w\<lparr>arch := x11\<rparr>) = engine w" "engine (w\<lparr>vtimelines := x12\<rparr>) = engine w"
  "engine (w\<lparr>pchunk_dom := x13\<rparr>) = engine w" "engine (w\<lparr>hflags := x14\<rparr>) = engine w"
  "engine (w\<lparr>drag_down := x15\<rparr>) = engine w" "engine (w\<lparr>drag_fork := x16\<rparr>) = engine w"
  "engine (w\<lparr>addr_els := x18\<rparr>) = engine w" "engine (w\<lparr>hl_classes := x19\<rparr>) = engine w"
  "engine (w\<lparr>hli_classes := x20\<rparr>) = engine w" "engine (w\<lparr>doms := x17\<rparr>) = engine w"
  "engine (w\<lparr>mem_cells := x21\<rparr>) = engine w" "engine (w\<lparr>reg_cells := x22\<rparr>) = engine w"
  "engine (w\<lparr>rflags := x23\<rparr>) = engine w" "engine (w\<lparr>ws_st := x24\<rparr>) = engine w"
  "engine (w\<lparr>ws_onopen := x25\<rparr>) = engine w" "engine (w\<lparr>ws_sent := x26\<rparr>) = engine w"
  by (simp_all add: engine_def)

lemma engine_get [simp]: "engine (snd (session_get k d w)) = engine w"
  by (simp add: engine_def session_get_def Let_def split: option.splits)

lemma engine_emit [simp]: "engine (emit n a w) = engine w" "engine (set_dom i h w) = engine w"
  by (simp_all add: emit_def set_dom_def)

lemma engine_and_then: "(\<And>w. engine (fst (g w)) = engine w) \<Longrightarrow> engine (fst (and_then r g)) = engine (fst r)"
  by (simp add: and_then_def split: prod.splits option.splits)

lemma engine_gets [simp]: "engine (snd (session_gets ks w)) = engine w"
  by (induction ks arbitrary: w) (simp_all add: split_beta)

text \<open>An empty world, from which concrete scenarios start.\<close>

definition w0 :: world where
  "w0 = \<lparr>mdeps = (\<lambda>_. []), mpend = [], mtimeout = None, mtrack = None, msession = (\<lambda>_. None),
    timers = [], next_timer = 0, hist_back = [], hist_cur = None, hist_fwd = [], hist_timers = 0,
    emits = [], flags = [], overlays = [], traces = [], names_cache = [], current_regs = None,
    arch = None, box_height = None, vtimelines = [], pchunk_dom = [], hflags = [],
    drag_down = ji (- 1), drag_fork = ji (- 1), addr_els = [], hl_classes = [], hli_classes = [],
    mem_cells = [], reg_cells = [], rflags = [], ws_st = WS_Undefined, ws_onopen = None, ws_sent = [],
    doms = (\<lambda>_. [])\<rparr>"

lemma w0_simps [simp]:
  "mdeps w0 = (\<lambda>_. [])" "mpend w0 = []" "mtimeout w0 = None" "mtrack w0 = None"
  "msession w0 = (\<lambda>_. None)" "timers w0 = []" "next_timer w0 = 0" "hist_back w0 = []" "hist_cur w0 = None"
  "hist_fwd w0 = []" "hist_timers w0 = 0" "emits w0 = []" "flags w0 = []" "overlays w0 = []" "traces w0 = []"
  "names_cache w0 = []" "current_regs w0 = None" "arch w0 = None" "box_height w0 = None"
  "vtimelines w0 = []" "pchunk_dom w0 = []" "hflags w0 = []" "drag_down w0 = ji (- 1)"
  "drag_fork w0 = ji (- 1)" "addr_els w0 = []" "hl_classes w0 = []" "hli_classes w0 = []" "doms w0 = (\<lambda>_. [])"
  "mem_cells w0 = []" "reg_cells w0 = []" "rflags w0 = []" "ws_st w0 = WS_Undefined"
  "ws_onopen w0 = None" "ws_sent w0 = []"
  by (simp_all add: w0_def)

end
