(* ===== verification/Base.thy ===== *)
theory Base
  imports Client_State
begin

text \<open>
  \<open>web/client/compatibility/base.js\<close>: the navigation history (\<open>push_history\<close>, \<open>onpopstate\<close>),
  the classification of addresses by page (\<open>get_data_type\<close>), and the operations that move the
  selection: \<open>update_dview\<close>, \<open>update_iaddr\<close>, \<open>update_maxclnum\<close>, \<open>zoom_out_max\<close>.
\<close>

section \<open>History\<close>

definition hist_keys :: "string list" where
  "hist_keys = [''cview'', ''dview'', ''sview'', ''iview'', ''clnum'', ''daddr'', ''iaddr'']"

text \<open>
  Two states have the same \<open>JSON.stringify\<close> exactly if these normal forms agree: an
  \<open>undefined\<close> member is left out, a number that is not finite becomes \<open>null\<close>.
\<close>

fun json_num :: "jsnum \<Rightarrow> jsnum" where
  "json_num PInf = NaN"
| "json_num NInf = NaN"
| "json_num n = n"

fun json_val :: "sval \<Rightarrow> sval" where
  "json_val (VNum n) = VNum (json_num n)"
| "json_val (VPair a b) = VPair (json_num a) (json_num b)"
| "json_val v = v"

definition stringify :: "hstate option \<Rightarrow> (string \<times> sval) list option" where
  "stringify = map_option (\<lambda>j. concat (map (\<lambda>(k, v). case v of None \<Rightarrow> [] | Some x \<Rightarrow> [(k, json_val x)]) j))"

definition pushState :: "hstate \<Rightarrow> world \<Rightarrow> world" where
  "pushState j w = w\<lparr>hist_back := hist_cur w # hist_back w, hist_cur := Some j, hist_fwd := []\<rparr>"

definition replaceState :: "hstate \<Rightarrow> world \<Rightarrow> world" where
  "replaceState j w = w\<lparr>hist_cur := Some j\<rparr>"

definition push_history :: "bool \<Rightarrow> world \<Rightarrow> world" where
  "push_history repl w =
     (let (vs, w) = session_gets hist_keys w; json = zip hist_keys vs
      in if stringify (hist_cur w) \<noteq> stringify (Some json)
         then (if repl then replaceState json w else pushState json w) else w)"

text \<open>The handler runs between turns of the event loop, where \<open>Session.get\<close> does not track.\<close>

definition onpopstate :: "hstate option \<Rightarrow> world \<Rightarrow> world" where
  "onpopstate st w = (case st of None \<Rightarrow> w
     | Some kvs \<Rightarrow> fold (\<lambda>(k, v) w. if loose_neq (msession w k) v then session_set k v w else w) kvs w)"

text \<open>\<open>history.back()\<close>: the browser moves one entry back and delivers the popstate event.\<close>

definition history_back :: "world \<Rightarrow> world" where
  "history_back w = (case hist_back w of [] \<Rightarrow> w
     | st # rest \<Rightarrow> onpopstate st (w\<lparr>hist_fwd := hist_cur w # hist_fwd w, hist_cur := st, hist_back := rest\<rparr>))"

text \<open>
  The history autorun: it reads its keys, clears the timer \<open>historyTimeout\<close> names (the variable
  is never assigned, so this clears nothing) and arms a new one; when such a timer fires, the
  current state is pushed.
\<close>

definition autorun_history :: "world \<Rightarrow> world \<times> js_error option" where
  "autorun_history w =
     (let (_, w) = session_gets [''cview'', ''dview'', ''sview'', ''clnum'', ''daddr''] w
      in (w\<lparr>hist_timers := Suc (hist_timers w)\<rparr>, None))"

definition fire_history_timer :: "world \<Rightarrow> world" where
  "fire_history_timer w = (case hist_timers w of 0 \<Rightarrow> w
     | Suc n \<Rightarrow> push_history False (w\<lparr>hist_timers := n\<rparr>))"

section \<open>Address classes and navigation\<close>

definition get_data_type :: "sval \<Rightarrow> bool \<Rightarrow> (js_error + string) handler" where
  "get_data_type v full w = (case v of
       VNum _ \<Rightarrow> (Inl (Thrown ''numbers no longer supported here''), w)
     | VStr s \<Rightarrow>
         (let (pm, w) = session_get ''pmaps'' False w in
          case pmaps_of pm of
            None \<Rightarrow> (Inl (TypeError ''pmaps is undefined''), w)
          | Some pmaps \<Rightarrow>
              (case map_of pmaps (bn_round s 3) of
                 None \<Rightarrow> (Inr '''', w)
               | Some a \<Rightarrow> (Inr (if full then ''data'' @ a @ '' addr addr_'' @ s else ''data'' @ a), w)))
     | _ \<Rightarrow> (Inl (TypeError ''not a string''), w))"

definition update_dview :: "string option \<Rightarrow> world \<Rightarrow> world \<times> js_error option" where
  "update_dview addr w =
     (let w = session_set ''daddr'' (map_option VStr addr) w in
      case addr of
        None \<Rightarrow> (w, Some (TypeError ''length of undefined''))
      | Some a \<Rightarrow>
          (let w = session_set ''dview'' (Some (VStr (bn_add (bn_round a 1) (ji (- 0x20))))) w
           in (push_history False w, None)))"

definition update_iaddr :: "string option \<Rightarrow> bool option \<Rightarrow> world \<Rightarrow> world" where
  "update_iaddr addr dirty w =
     (let d = (case dirty of None \<Rightarrow> True | Some b \<Rightarrow> b);
          w = session_set ''iaddr'' (map_option VStr addr) w;
          w = (if d then session_set ''iview'' (map_option VStr addr)
                           (session_set ''dirtyiaddr'' (Some (VBool True)) w) else w)
      in push_history False w)"

section \<open>Change numbers\<close>

text \<open>The loop of \<open>abs_maxclnum\<close> over the enumerated forks.\<close>

fun maxcl_loop :: "forks \<Rightarrow> jsnum option \<Rightarrow> jsnum option" where
  "maxcl_loop [] ret = ret"
| "maxcl_loop ((_, _, hi) # fs) ret =
     maxcl_loop fs (case ret of None \<Rightarrow> Some hi | Some r \<Rightarrow> if js_lt r hi then Some hi else Some r)"

definition abs_maxclnum :: "jsnum option handler" where
  "abs_maxclnum w =
     (let (m, w) = session_get ''max_clnum'' False w
      in (case forks_of m of None \<Rightarrow> None | Some fs \<Rightarrow> maxcl_loop fs None, w))"

definition zoom_out_max :: "bool option \<Rightarrow> world \<Rightarrow> world" where
  "zoom_out_max dontforce w =
     (let (mx, w) = abs_maxclnum w in
      case mx of None \<Rightarrow> w
      | Some m \<Rightarrow>
          push_history False
            (if dontforce = Some True then session_setDefault ''cview'' (Some (VPair (ji 0) m)) w
             else session_set ''cview'' (Some (VPair (ji 0) m)) w))"

definition update_maxclnum :: "forks \<Rightarrow> world \<Rightarrow> world" where
  "update_maxclnum clnum w =
     (let (old, w) = session_get ''max_clnum'' False w;
          w = session_set ''max_clnum'' (Some (VForks clnum)) w;
          (cv, w) = session_get ''cview'' False w;
          w = (case pair_of cv of
                 None \<Rightarrow> zoom_out_max (Some False) w
               | Some (c0, _) \<Rightarrow> if js_eq c0 (ji 0) then zoom_out_max (Some False) w else w);
          w = session_setDefault ''forknum'' (Some (VNum (ji 0))) w;
          (fn, w) = session_get ''forknum'' False w
      in case map_of clnum (prop_key fn) of
           None \<Rightarrow> w
         | Some (_, hi) \<Rightarrow>
             (let w = session_setDefault ''clnum'' (Some (VNum hi)) w in
              case forks_of old of
                None \<Rightarrow> w
              | Some olds \<Rightarrow>
                  (case map_of olds (prop_key fn) of
                     None \<Rightarrow> w
                   | Some (_, ohi) \<Rightarrow>
                       (let (cl, w) = session_get ''clnum'' False w
                        in if js_eq ohi (num_of cl) then session_set ''clnum'' (Some (VNum hi)) w else w))))"

section \<open>History lemmas\<close>

definition cur_json :: "world \<Rightarrow> hstate" where
  "cur_json w = zip hist_keys (map (msession w) hist_keys)"

lemma push_history_idle: "mtrack w = None \<Longrightarrow> push_history r w =
  (if stringify (hist_cur w) \<noteq> stringify (Some (cur_json w))
   then (if r then replaceState (cur_json w) w else pushState (cur_json w) w) else w)"
  by (simp add: push_history_def cur_json_def)

lemma push_history_frame [simp]:
  assumes "mtrack w = None"
  shows "msession (push_history r w) = msession w" "mtrack (push_history r w) = None"
    "mdeps (push_history r w) = mdeps w" "mpend (push_history r w) = mpend w"
    "emits (push_history r w) = emits w" "flags (push_history r w) = flags w"
    "timers (push_history r w) = timers w" "traces (push_history r w) = traces w"
    "box_height (push_history r w) = box_height w"
  using assms by (auto simp: push_history_idle pushState_def replaceState_def)

lemma push_history_minv [intro]: "minv w \<Longrightarrow> minv (push_history r w)"
  using session_gets_minv [of w hist_keys]
  by (auto simp: push_history_def pushState_def replaceState_def Let_def split: prod.splits)

lemma engine_push_history [simp]: "engine (push_history r w) = engine w"
  by (simp add: push_history_def split_beta pushState_def replaceState_def Let_def)

lemma push_history_records:
  assumes "mtrack w = None"
  shows "stringify (hist_cur (push_history r w)) = stringify (Some (cur_json w))"
  using assms by (auto simp: push_history_idle pushState_def replaceState_def)

lemma push_history_idem:
  assumes "mtrack w = None"
  shows "push_history r (push_history r' w) = push_history r' w"
proof -
  have "cur_json (push_history r' w) = cur_json w" using assms by (simp add: cur_json_def)
  then show ?thesis
    using assms push_history_records [OF assms, of r'] by (simp add: push_history_idle [of "push_history r' w"])
qed

lemma cur_json_keys: "map fst (cur_json w) = hist_keys"
  by (simp add: cur_json_def)

lemma distinct_hist_keys: "distinct hist_keys"
  by (simp add: hist_keys_def)

lemma map_of_cur_json: "map_of (cur_json w) k = (if k \<in> set hist_keys then Some (msession w k) else None)"
  by (simp add: cur_json_def map_of_zip_map)

lemma onpopstate_cur_json:
  "msession (onpopstate (Some (cur_json w)) v) k =
     (if k \<in> set hist_keys then msession w k else msession v k)"
  using session.read_restore [where neq = loose_neq and kvs = "cur_json w" and s = v and j = k]
  by (simp add: onpopstate_def loose_neq_same cur_json_keys distinct_hist_keys map_of_cur_json)

lemma onpopstate_more: "meteor.more (onpopstate st v) = meteor.more v"
proof -
  have "meteor.more (fold (\<lambda>(k, v) w. if loose_neq (msession w k) v then session_set k v w else w) kvs v)
      = meteor.more v" for kvs :: hstate
    by (induction kvs arbitrary: v) auto
  then show ?thesis by (simp add: onpopstate_def split: option.splits)
qed

lemma history_back_restores:
  assumes "mtrack v = None" and "hist_cur v = Some (cur_json w)"
    and "stringify (Some (cur_json v)) \<noteq> stringify (hist_cur v)"
  shows "msession (history_back (push_history False v)) k
      = (if k \<in> set hist_keys then msession w k else msession v k)
    \<and> hist_cur (history_back (push_history False v)) = hist_cur v
    \<and> hist_back (history_back (push_history False v)) = hist_back v"
proof -
  have p: "push_history False v = pushState (cur_json v) v"
    using assms by (simp add: push_history_idle)
  let ?u = "(pushState (cur_json v) v)
     \<lparr>hist_fwd := hist_cur (pushState (cur_json v) v) # hist_fwd (pushState (cur_json v) v),
      hist_cur := Some (cur_json w), hist_back := hist_back v\<rparr>"
  have "history_back (push_history False v) = onpopstate (Some (cur_json w)) ?u"
    using assms(2) unfolding p by (simp add: history_back_def pushState_def)
  then show ?thesis
    using world_more_frame [OF onpopstate_more [of "Some (cur_json w)" ?u]] assms(2)
    by (simp add: onpopstate_cur_json pushState_def)
qed

section \<open>Navigation lemmas\<close>

lemma length_bn_round: "3 \<le> length s \<Longrightarrow> length (bn_round s n) \<le> length s"
  by (auto simp: bn_round_def js_substring_def)

lemma addr64_bn_round: "addr64 s \<Longrightarrow> addr64 (bn_round s n)"
proof -
  assume s: "addr64 s"
  then obtain ds where ds: "s = ''0x'' @ ds" "ds \<noteq> []" unfolding addr64_def by (blast elim: is_addrE)
  then have "3 \<le> length s" by (cases ds) auto
  with s show ?thesis
    using bn_round_val [of s n] length_bn_round [of s n] by (simp add: addr64_def)
qed

lemma update_dview_session:
  assumes "mtrack w = None"
  shows "snd (update_dview (Some a) w) = None
    \<and> msession (fst (update_dview (Some a) w)) = (msession w)(''daddr'' \<mapsto> VStr a,
        ''dview'' \<mapsto> VStr (bn_add (bn_round a 1) (ji (- 0x20))))"
  using assms by (simp add: update_dview_def Let_def)

text \<open>The row two rows above an address; below 0x20 it wraps around.\<close>

lemma row_above:
  assumes "addr64 a" and "0x20 \<le> hexv a"
  shows "is_addr (bn_add (bn_round a 1) (ji (- 0x20)))
    \<and> hexv (bn_add (bn_round a 1) (ji (- 0x20))) = hexv a div 16 * 16 - 0x20 \<and> 0x20 \<le> hexv a div 16 * 16"
proof -
  let ?r = "bn_round a 1"
  have r: "addr64 ?r" "hexv ?r = hexv a div 16 * 16"
    using assms(1) addr64_bn_round bn_round_val [of a 1] by (simp_all add: addr64_def)
  have "(0x20::nat) div 16 \<le> hexv a div 16" using assms(2) by (intro div_le_mono)
  then have "0x20 \<le> hexv ?r" using r(2) by simp
  with bn_add_val [of ?r "- 0x20"] r show ?thesis by auto
qed

lemma row_above_low:
  assumes "canon64 a" and "hexv a < 0x20"
  shows "bn_add (bn_round a 1) (ji (- 0x20)) = addr_of (0xffffffe0 + hexv a div 16 * 16)"
proof -
  have r: "is_addr (bn_round a 1)" "hexv (bn_round a 1) = hexv a div 16 * 16"
    using canon64D [OF assms(1)] bn_round_val [of a 1] by (simp_all add: addr64_def)
  have "length a \<le> 10" using assms length_addr_of_le [of "hexv a" 7] unfolding canon64_def by simp
  then have "length (bn_round a 1) \<le> 10" by (simp add: bn_round_def js_substring_def) arith
  moreover have "hexv a div 16 * 16 < 0x20" using assms(2) by (meson div_times_less_eq_dividend le_less_trans)
  ultimately show ?thesis
    using r bn_add_short [of "bn_round a 1" "- 0x20"] by (simp add: nat_add_distrib nat_diff_distrib nat_mult_distrib)
qed

lemma maxcl_loop_ints:
  "maxcl_loop (map (\<lambda>(k, l, h). (k, l, ji h)) fs) (Some (ji m)) = Some (ji (Max (insert m ((\<lambda>(k, l, h). h) ` set fs))))"
proof (induction fs arbitrary: m)
  case (Cons p fs)
  obtain k l h where p: "p = (k, l, h)" by (cases p)
  have "maxcl_loop (map (\<lambda>(k, l, h). (k, l, ji h)) (p # fs)) (Some (ji m))
      = maxcl_loop (map (\<lambda>(k, l, h). (k, l, ji h)) fs) (Some (ji (max m h)))"
    by (auto simp: p max_def)
  also have "\<dots> = Some (ji (Max (insert (max m h) ((\<lambda>(k, l, h). h) ` set fs))))"
    by (rule Cons.IH)
  also have "Max (insert (max m h) ((\<lambda>(k, l, h). h) ` set fs)) = Max (insert m ((\<lambda>(k, l, h). h) ` set (p # fs)))"
    by (cases "fs = []") (auto simp: p max.assoc)
  finally show ?case .
qed simp

lemma maxcl_loop_Some: "fs \<noteq> [] \<Longrightarrow> \<exists>m. maxcl_loop fs r = Some m"
proof -
  have some: "\<exists>m. maxcl_loop gs (Some q) = Some m" for gs q by (induction gs arbitrary: q) auto
  then show "fs \<noteq> [] \<Longrightarrow> ?thesis" by (cases fs) (auto split: option.splits)
qed

lemma abs_maxclnum_idle: "mtrack w = None \<Longrightarrow> abs_maxclnum w =
  (case forks_of (msession w ''max_clnum'') of None \<Rightarrow> None | Some fs \<Rightarrow> maxcl_loop fs None, w)"
  by (simp add: abs_maxclnum_def)

lemma zoom_out_max_session:
  assumes "mtrack w = None"
  shows "msession (zoom_out_max (Some False) w) =
      (case fst (abs_maxclnum w) of None \<Rightarrow> msession w | Some m \<Rightarrow> (msession w)(''cview'' \<mapsto> VPair (ji 0) m))"
    and "mtrack (zoom_out_max d w) = None"
  using assms by (auto simp: zoom_out_max_def abs_maxclnum_idle session_simps split: option.splits)

text \<open>The selected change follows the end of the trace exactly if it was at the end.\<close>

lemma update_maxclnum_session:
  assumes idle: "mtrack w = None"
    and fn: "msession w ''forknum'' = Some fn"
    and cl: "msession w ''clnum'' = Some (VNum c)"
    and old: "msession w ''max_clnum'' = Some (VForks olds)" "map_of olds (prop_key (Some fn)) = Some (olo, ohi)"
    and new: "map_of news (prop_key (Some fn)) = Some (lo, hi)"
  shows "msession (update_maxclnum news w) = (msession w)
    (''max_clnum'' \<mapsto> VForks news, ''clnum'' \<mapsto> VNum (if js_eq ohi c then hi else c),
     ''cview'' := (case pair_of (msession w ''cview'') of
        None \<Rightarrow> Some (VPair (ji 0) (the (maxcl_loop news None)))
      | Some (c0, c1) \<Rightarrow> if js_eq c0 (ji 0) then Some (VPair (ji 0) (the (maxcl_loop news None)))
                       else Some (VPair c0 c1)))"
proof -
  have "news \<noteq> []" using new by auto
  then obtain m where m: "maxcl_loop news None = Some m" using maxcl_loop_Some by blast
  define w1 where "w1 = session_set ''max_clnum'' (Some (VForks news)) w"
  define w2 where "w2 = (case pair_of (msession w1 ''cview'') of
                 None \<Rightarrow> zoom_out_max (Some False) w1
               | Some (c0, _) \<Rightarrow> if js_eq c0 (ji 0) then zoom_out_max (Some False) w1 else w1)"
  have i1: "mtrack w1 = None" using idle by (simp add: w1_def)
  have z: "msession (zoom_out_max (Some False) w1) = (msession w1)(''cview'' \<mapsto> VPair (ji 0) m)"
    using zoom_out_max_session(1) [OF i1] i1 m by (simp add: abs_maxclnum_idle w1_def)
  have i2: "mtrack w2 = None"
    using i1 zoom_out_max_session(2) [OF i1] by (simp add: w2_def split: option.splits)
  have pc: "pair_of (msession w ''cview'') = Some (c0, c1) \<Longrightarrow> msession w ''cview'' = Some (VPair c0 c1)" for c0 c1
    by (cases "msession w ''cview''" rule: pair_of.cases) auto
  have s2: "msession w2 = (msession w)(''max_clnum'' \<mapsto> VForks news, ''cview'' := (case pair_of (msession w ''cview'') of
        None \<Rightarrow> Some (VPair (ji 0) m)
      | Some (c0, c1) \<Rightarrow> if js_eq c0 (ji 0) then Some (VPair (ji 0) m) else Some (VPair c0 c1)))"
    using z pc by (auto simp: w2_def w1_def fun_eq_iff split: option.splits)
  have "update_maxclnum news w = (if js_eq ohi c then session_set ''clnum'' (Some (VNum hi)) w2 else w2)"
    using idle i1 i2 fn cl old new s2
    by (simp add: update_maxclnum_def Let_def session_simps flip: w1_def w2_def)
  then show ?thesis unfolding m option.sel using s2 cl by (auto simp: fun_eq_iff)
qed

end
