(* ===== verification/Highlight.thy ===== *)
theory Highlight
  imports Base
begin

text \<open>
  \<open>web/client/compatibility/highlight.js\<close>: instructions and system calls are shown with their
  registers and addresses wrapped in \<open>span\<close> elements. The text is escaped first; then a global
  regular expression (hexadecimal numbers, then the register names of the architecture) is replaced
  match by match; then the first word is wrapped as the opcode.
\<close>

section \<open>Escaping and colours\<close>

abbreviation dq :: string where "dq \<equiv> [CHR 0x22]"  \<comment> \<open>a double quote\<close>
abbreviation sq :: string where "sq \<equiv> [CHR 0x27]"  \<comment> \<open>a single quote\<close>

definition regcolors :: "string list" where
  "regcolors = [
    ''#60AE3F'', ''#723160'', ''#2A80A2'', ''#9E66BD'', ''#BC8D6B'', ''#3F3EAC'', ''#BC48B8'', ''#6B7C76'',
    ''#5FAC7F'', ''#A69B71'', ''#874535'', ''#AD49BF'', ''#73356F'', ''#55A4AC'', ''#988590'', ''#505C62'',
    ''#404088'', ''#56726B'', ''#BAAC62'', ''#454066'', ''#BCAEAA'', ''#4E7F6A'', ''#3960B5'', ''#295231'',
    ''#3B37A5'', ''#6A9191'', ''#976394'', ''#7F957D'', ''#B7AFBD'', ''#BD4A70'', ''#A35169'', ''#2F2D95'',
    ''#8879A8'', ''#8D3A8E'', ''#636E7C'', ''#82688D'', ''#9FA893'', ''#2A6885'', ''#812C87'', ''#568E71'',
    ''#6FA0B2'', ''#7B7928'', ''#57BD86'', ''#6BBC9A'', ''#807FB3'', ''#922AAD'', ''#AB5D98'', ''#9C943A'',
    ''#796880'', ''#294870'', ''#528054'', ''#4ABBA2'', ''#87437B'', ''#AA4E73'', ''#2893AC'', ''#5AA383'',
    ''#A5714D'', ''#648186'', ''#68BA37'', ''#466A89'', ''#5CB871'', ''#3D8267'', ''#28B930'', ''#5E6C6F'',
    ''#5C6772'', ''#389E58'', ''#34B69B'', ''#3CA46A'', ''#4F4691'', ''#4D48A1'', ''#836CB1'', ''#2B6948'',
    ''#4F42BB'', ''#549B68'', ''#69B563'', ''#B39F5C'', ''#A37841'', ''#7858B4'', ''#577244'', ''#2B7DAD'']"

definition escape_char :: "char \<Rightarrow> string" where
  "escape_char c = (if c = CHR 0x22 then ''&quot;'' else if c = CHR ''&'' then ''&amp;''
     else if c = CHR ''<'' then ''&lt;'' else if c = CHR ''>'' then ''&gt;'' else [c])"

definition escapeHTML :: "string \<Rightarrow> string" where
  "escapeHTML text = concat (map escape_char text)"

text \<open>\<open>fc\<close>: each colour component divided by 1.4.\<close>

definition fc :: "string \<Rightarrow> string" where
  "fc a = (let d = (\<lambda>s. hex2 (Some (js_floor (js_div (parse_int 16 s) (jsfin (7 / 5))))))
     in ''#'' @ d (take 2 (drop 1 a)) @ d (take 2 (drop 3 a)) @ d (take 2 (drop 5 a)))"

definition to_lower :: "char \<Rightarrow> char" where
  "to_lower c = (let n = of_char c :: nat in if 65 \<le> n \<and> n \<le> 90 then char_of (n + 32) else c)"

section \<open>The regular expression\<close>

definition is_lhex :: "char \<Rightarrow> bool" where
  "is_lhex c \<longleftrightarrow> c \<in> set ''0123456789abcdef''"

definition hex_match :: "string \<Rightarrow> nat option" where
  "hex_match s = (if take 2 s = ''0x'' then
     let n = length (takeWhile is_lhex (drop 2 s)) in if n = 0 then None else Some (n + 2) else None)"

text \<open>
  The register alternatives, in order. A name with a dollar sign never matches: in the regular
  expression it is the end-of-input anchor. No other register name has special characters.
\<close>

definition reg_match :: "string list \<Rightarrow> string \<Rightarrow> nat option" where
  "reg_match names s = map_option length
     (List.find (\<lambda>n. n \<noteq> [] \<and> CHR ''$'' \<notin> set n \<and> take (length n) s = n) names)"

definition re_match :: "string list \<Rightarrow> string \<Rightarrow> nat option" where
  "re_match names s = (case hex_match s of Some n \<Rightarrow> Some n | None \<Rightarrow> reg_match names s)"

text \<open>The pieces a global replace sees: single characters left alone, and matches.\<close>

function re_tokens :: "string list \<Rightarrow> string \<Rightarrow> (char + string) list" where
  "re_tokens names s = (case s of [] \<Rightarrow> [] | c # cs \<Rightarrow>
     (case re_match names s of
        Some n \<Rightarrow> if n = 0 then Inl c # re_tokens names cs else Inr (take n s) # re_tokens names (drop n s)
      | None \<Rightarrow> Inl c # re_tokens names cs))"
  by pat_completeness auto
termination
  by (relation "measure (length \<circ> snd)") auto

declare re_tokens.simps [simp del]

section \<open>Highlighting\<close>

definition reg_rep :: "nat \<Rightarrow> jsnum \<Rightarrow> string \<Rightarrow> string" where
  "reg_rep i ptrsize name = ''<span style='' @ dq @ ''color: '' @ fc (regcolors ! i) @ dq @ '' class='' @ dq
     @ ''data_'' @ hex (Some (js_mul (ji (int i)) ptrsize)) @ dq @ ''>'' @ name @ ''</span>''"

text \<open>
  The table \<open>reps\<close>, filled from the last register down; \<open>null\<close> names are skipped. A register
  beyond the colour table has no colour, and \<open>fc\<close> of \<open>undefined\<close> throws.
\<close>

fun reg_reps :: "nat \<Rightarrow> string option list \<Rightarrow> jsnum \<Rightarrow> (string \<times> string) list \<Rightarrow> js_error + (string \<times> string) list" where
  "reg_reps 0 names ptrsize reps = Inr reps"
| "reg_reps (Suc i) names ptrsize reps =
     (case names ! i of None \<Rightarrow> reg_reps i names ptrsize reps
      | Some n \<Rightarrow> if length regcolors \<le> i then Inl (TypeError ''colour is undefined'')
          else reg_reps i names ptrsize
            (obj_put (map to_lower n) (reg_rep i ptrsize (map to_lower n))
              (obj_put n (reg_rep i ptrsize n) reps)))"

definition dorep :: "(string \<times> string) list \<Rightarrow> string \<Rightarrow> (js_error + string) handler" where
  "dorep reps a w =
     (if take 2 a = ''0x'' then
        (case get_data_type (VStr a) False w of
           (Inl e, w) \<Rightarrow> (Inl e, w)
         | (Inr cl, w) \<Rightarrow>
             (Inr (if cl = [] then ''<span class='' @ sq @ ''hexnumber'' @ sq @ ''>'' @ a @ ''</span>''
                   else ''<span class='' @ sq @ cl @ '' addr addr_'' @ a @ sq @ ''>'' @ a @ ''</span>''), w))
      else (Inr (case map_of reps a of Some r \<Rightarrow> r | None \<Rightarrow> ''undefined''), w))"

fun render :: "(string \<times> string) list \<Rightarrow> (char + string) list \<Rightarrow> (js_error + string) handler" where
  "render reps [] w = (Inr [], w)"
| "render reps (Inl c # ts) w =
     (case render reps ts w of (Inl e, w) \<Rightarrow> (Inl e, w) | (Inr s, w) \<Rightarrow> (Inr (c # s), w))"
| "render reps (Inr m # ts) w =
     (case dorep reps m w of (Inl e, w) \<Rightarrow> (Inl e, w)
      | (Inr r, w) \<Rightarrow> (case render reps ts w of (Inl e, w) \<Rightarrow> (Inl e, w) | (Inr s, w) \<Rightarrow> (Inr (r @ s), w)))"

definition wrap_op :: "string \<Rightarrow> string" where
  "wrap_op ret = (let i = length (takeWhile (\<lambda>c. c \<noteq> CHR '' '' \<and> c \<noteq> CHR 0x09) ret)
     in ''<span class='' @ dq @ ''op'' @ dq @ ''>'' @ take i ret @ ''</span>'' @ drop i ret)"

definition highlight_instruction :: "string option \<Rightarrow> bool \<Rightarrow> (js_error + string) handler" where
  "highlight_instruction a instruction w = (case a of None \<Rightarrow> (Inr ''undefined'', w) | Some text \<Rightarrow>
     (let ret = escapeHTML text;
          (r, w) = (case arch w of None \<Rightarrow> (Inr ret, w)
            | Some (names, ptrsize) \<Rightarrow>
                (case (if instruction then reg_reps (length names) names ptrsize [] else Inr []) of
                   Inl e \<Rightarrow> (Inl e, w)
                 | Inr reps \<Rightarrow> render reps (re_tokens (map fst reps) ret) w))
      in case r of Inl e \<Rightarrow> (Inl e, w)
         | Inr s \<Rightarrow> (Inr (if instruction then wrap_op s else s), w)))"

definition highlight_addresses :: "string option \<Rightarrow> (js_error + string) handler" where
  "highlight_addresses a = highlight_instruction a False"

section \<open>Class-based highlighting and names\<close>

definition rehighlight :: "world \<Rightarrow> world" where
  "rehighlight w =
     (let (clnum, w) = session_get ''clnum'' False w;
          (iaddr, w) = session_get ''iaddr'' False w;
          (daddr, w) = session_get ''daddr'' False w
      in w\<lparr>hl_classes := [''clnum_'' @ prop_key clnum, ''daddr_'' @ prop_key daddr, ''data_'' @ prop_key daddr],
           hli_classes := [''addr_'' @ prop_key iaddr]\<rparr>)"

definition autorun_rehighlight :: "world \<Rightarrow> world \<times> js_error option" where
  "autorun_rehighlight w = (rehighlight w, None)"

text \<open>\<open>get_address_from_class\<close>: exactly one class whose first five characters are \<open>type_\<close>.\<close>

definition get_address_from_class :: "string \<Rightarrow> string option \<Rightarrow> string option" where
  "get_address_from_class className type =
     (let ty = (case type of None \<Rightarrow> ''addr'' | Some t \<Rightarrow> t);
          l = filter (\<lambda>x. take 5 x = ty @ ''_'') (js_split CHR '' '' className)
      in if length l \<noteq> 1 then None
         else (case js_split CHR ''_'' (hd l) of _ # b # _ \<Rightarrow> Some (hd (js_split CHR '' '' b)) | _ \<Rightarrow> None))"

definition name_el :: "string \<Rightarrow> addr_el \<Rightarrow> addr_el" where
  "name_el n el = el\<lparr>ae_name := True, ae_html := n\<rparr>"

definition on_names :: "(string \<times> string) list \<Rightarrow> world \<Rightarrow> world" where
  "on_names msg w = fold (\<lambda>(addr, n) w. w\<lparr>names_cache := obj_put addr n (names_cache w),
      addr_els := map (\<lambda>el. if ''addr_'' @ addr \<in> set (js_split CHR '' '' (ae_class el)) then name_el n el else el)
        (addr_els w)\<rparr>) msg w"

definition replace_names :: "world \<Rightarrow> world" where
  "replace_names w =
     (let w' = w\<lparr>addr_els := map (\<lambda>el. case get_address_from_class (ae_class el) None of None \<Rightarrow> el
            | Some a \<Rightarrow> (case map_of (names_cache w) a of None \<Rightarrow> el | Some n \<Rightarrow> name_el n el)) (addr_els w)\<rparr>
      in emit ''getnames'' [Some (VArr (map VStr
           (List.map_filter (\<lambda>el. get_address_from_class (ae_class el) None) (addr_els w))))] w')"

section \<open>Text and markup\<close>

text \<open>
  The text a fragment of markup shows: everything outside of tags (entities still encoded). The
  first argument says whether the position is inside of a tag.
\<close>

fun strip_tags :: "bool \<Rightarrow> string \<Rightarrow> string" where
  "strip_tags b [] = []"
| "strip_tags False (c # cs) = (if c = CHR ''<'' then strip_tags True cs else c # strip_tags False cs)"
| "strip_tags True (c # cs) = (if c = CHR ''>'' then strip_tags False cs else strip_tags True cs)"

definition no_markup :: "string \<Rightarrow> bool" where
  "no_markup s \<longleftrightarrow> CHR ''<'' \<notin> set s \<and> CHR ''>'' \<notin> set s"

lemma no_markup_append [simp]: "no_markup (s @ t) \<longleftrightarrow> no_markup s \<and> no_markup t"
  and no_markup_Cons [simp]: "no_markup (c # s) \<longleftrightarrow> c \<noteq> CHR ''<'' \<and> c \<noteq> CHR ''>'' \<and> no_markup s"
  and no_markup_Nil [simp]: "no_markup []"
  by (auto simp: no_markup_def)

lemma strip_tags_text: "no_markup s \<Longrightarrow> strip_tags False (s @ x) = s @ strip_tags False x"
  by (induction s) auto

lemma strip_tags_inside: "no_markup s \<Longrightarrow> strip_tags True (s @ x) = strip_tags True x"
  by (induction s) auto

lemma escape_char_safe: "no_markup (escape_char c) \<and> CHR 0x22 \<notin> set (escape_char c)"
  by (auto simp: escape_char_def)

lemma escapeHTML_safe: "no_markup (escapeHTML s) \<and> CHR 0x22 \<notin> set (escapeHTML s)"
  using escape_char_safe by (auto simp: escapeHTML_def no_markup_def)

text \<open>Escaping loses nothing: the four entities decode to the four characters.\<close>

fun unescape :: "string \<Rightarrow> string" where
  "unescape s = (case s of [] \<Rightarrow> [] | c # cs \<Rightarrow>
     if take 6 s = ''&quot;'' then CHR 0x22 # unescape (drop 6 s)
     else if take 5 s = ''&amp;'' then CHR ''&'' # unescape (drop 5 s)
     else if take 4 s = ''&lt;'' then CHR ''<'' # unescape (drop 4 s)
     else if take 4 s = ''&gt;'' then CHR ''>'' # unescape (drop 4 s)
     else c # unescape cs)"

declare unescape.simps [simp del]

lemma unescape_escape_char: "unescape (escape_char c @ s) = c # unescape s"
  by (subst unescape.simps) (auto simp: escape_char_def)

lemma unescape_escapeHTML: "unescape (escapeHTML s) = s"
proof (induction s)
  case Nil
  show ?case by (subst unescape.simps) (simp add: escapeHTML_def)
next
  case (Cons c s)
  then show ?case using unescape_escape_char [of c "escapeHTML s"] by (simp add: escapeHTML_def)
qed

fun token_text :: "char + string \<Rightarrow> string" where
  "token_text (Inl c) = [c]"
| "token_text (Inr s) = s"

lemma re_tokens_text: "concat (map token_text (re_tokens names s)) = s"
proof (induction names s rule: re_tokens.induct)
  case (1 names s)
  show ?case
  proof (cases s)
    case Nil
    then show ?thesis by (subst re_tokens.simps) simp
  next
    case (Cons c cs)
    show ?thesis
    proof (cases "re_match names s")
      case None
      with Cons 1 show ?thesis by (subst re_tokens.simps) simp
    next
      case (Some n)
      with Cons 1 show ?thesis
        by (cases "n = 0"; subst re_tokens.simps) simp_all
    qed
  qed
qed

text \<open>The kinds of memory in \<open>pmaps\<close> become class names.\<close>

definition plain_pmaps :: "world \<Rightarrow> bool" where
  "plain_pmaps w \<longleftrightarrow> (case pmaps_of (msession w ''pmaps'') of None \<Rightarrow> False
     | Some pm \<Rightarrow> \<forall>(k, v) \<in> set pm. no_markup v)"

lemma get_data_type_ok:
  assumes "plain_pmaps w"
  shows "\<exists>cl w'. get_data_type (VStr a) False w = (Inr cl, w') \<and> no_markup cl \<and> plain_pmaps w'"
proof -
  obtain v w' where g: "session_get ''pmaps'' False w = (v, w')" by fastforce
  have v: "v = msession w ''pmaps''" "msession w' = msession w"
    using session_get_value [of "''pmaps''" False w] session_get_engine(1) [of "''pmaps''" False w] g by simp_all
  obtain pm where pm: "pmaps_of v = Some pm" "\<forall>(k, v) \<in> set pm. no_markup v"
    using assms v by (auto simp: plain_pmaps_def split: option.splits)
  have "no_markup x" if "map_of pm p = Some x" for p x
    using pm(2) map_of_SomeD [OF that] by blast
  then show ?thesis
    using g pm(1) assms v by (auto simp: get_data_type_def plain_pmaps_def split: option.splits)
qed

lemma dorep_address:
  assumes "plain_pmaps w" and "no_markup a" and "take 2 a = ''0x''"
  shows "\<exists>r w'. dorep reps a w = (Inr r, w') \<and> plain_pmaps w'
    \<and> (\<forall>x. strip_tags False (r @ x) = a @ strip_tags False x)"
proof -
  obtain cl w' where g: "get_data_type (VStr a) False w = (Inr cl, w')" "no_markup cl" "plain_pmaps w'"
    using get_data_type_ok [OF assms(1)] by blast
  have "strip_tags False (''<span class='' @ sq @ c @ sq @ ''>'' @ a @ ''</span>'' @ x) = a @ strip_tags False x"
    if "no_markup c" for c x
    using that assms(2) strip_tags_inside [of c] strip_tags_text [of a] by simp
  from this [of "''hexnumber''"] this [of "cl @ '' addr addr_'' @ a"] show ?thesis
    using g assms by (auto simp: dorep_def)
qed

text \<open>Numbers and colours contain no markup, so a register's tag is no more than a tag.\<close>

lemma no_markup_digits: "2 \<le> r \<Longrightarrow> r \<le> 16 \<Longrightarrow> no_markup (digits r n)"
  using all_digits_digits [of r n] by (auto simp: all_digits_def no_markup_def is_digit_def digit_val_def)

lemma no_markup_number: "2 \<le> r \<Longrightarrow> r \<le> 16 \<Longrightarrow> no_markup (num_to_string r n)"
  by (cases n) (simp_all add: int_to_string_def no_markup_digits)

lemma no_markup_hex: "no_markup (hex a)"
  by (cases a) (simp_all add: hex_def no_markup_number Let_def)

lemma no_markup_fc: "no_markup (fc a)"
  by (simp add: fc_def hex2_def no_markup_number Let_def)

lemma no_markup_lower: "no_markup (map to_lower n) \<longleftrightarrow> no_markup n"
proof (induction n)
  case (Cons c n)
  have "to_lower c = x \<longleftrightarrow> c = x" if "of_char x < (65 :: nat)" for x
    using that by (auto simp: to_lower_def Let_def)
  from this [of "CHR ''<''"] this [of "CHR ''>''"] Cons show ?case by simp
qed simp

text \<open>Tables of replacements that show the very keys they replace.\<close>

definition shows_keys :: "(string \<times> string) list \<Rightarrow> bool" where
  "shows_keys reps \<longleftrightarrow> (\<forall>k r. map_of reps k = Some r \<longrightarrow> (\<forall>x. strip_tags False (r @ x) = k @ strip_tags False x))"

lemma strip_reg_rep: "no_markup n \<Longrightarrow> strip_tags False (reg_rep i p n @ x) = n @ strip_tags False x"
  using no_markup_fc [of "regcolors ! i"] no_markup_hex [of "Some (js_mul (ji (int i)) p)"]
  by (simp add: reg_rep_def strip_tags_inside strip_tags_text)

lemma reg_reps_shown:
  assumes "i \<le> length names" and "length names \<le> length regcolors"
    and "\<And>n. Some n \<in> set names \<Longrightarrow> no_markup n" and "shows_keys reps"
  shows "\<exists>reps'. reg_reps i names p reps = Inr reps' \<and> shows_keys reps'"
  using assms(1, 4)
proof (induction i arbitrary: reps)
  case (Suc i)
  show ?case
  proof (cases "names ! i")
    case None
    with Suc show ?thesis by simp
  next
    case (Some n)
    with Suc.prems have "no_markup n" using assms(3) nth_mem [of i names] by simp
    with Suc.prems have "shows_keys (obj_put (map to_lower n) (reg_rep i p (map to_lower n)) (obj_put n (reg_rep i p n) reps))"
      by (auto simp: shows_keys_def strip_reg_rep no_markup_lower)
    with Some Suc assms(2) show ?thesis by simp
  qed
qed simp


lemma dorep_shown:
  assumes "plain_pmaps w" and "no_markup a" and "shows_keys reps" and "take 2 a = ''0x'' \<or> a \<in> fst ` set reps"
  shows "\<exists>r w'. dorep reps a w = (Inr r, w') \<and> plain_pmaps w'
    \<and> (\<forall>x. strip_tags False (r @ x) = a @ strip_tags False x)"
proof (cases "take 2 a = ''0x''")
  case True
  with assms show ?thesis by (intro dorep_address)
next
  case False
  with assms(4) obtain r where "map_of reps a = Some r" by (metis map_of_eq_None_iff option.exhaust)
  with False assms(1,3) show ?thesis by (simp add: dorep_def shows_keys_def)
qed

text \<open>Tokens that are single characters, addresses or registers are shown as they are.\<close>

lemma render_text:
  assumes "plain_pmaps w" and "no_markup (concat (map token_text ts))" and "shows_keys reps"
    and "\<forall>a. Inr a \<in> set ts \<longrightarrow> take 2 a = ''0x'' \<or> a \<in> fst ` set reps"
  shows "\<exists>r w'. render reps ts w = (Inr r, w') \<and> plain_pmaps w'
    \<and> strip_tags False r = concat (map token_text ts)"
  using assms(1,2,4)
proof (induction ts arbitrary: w)
  case (Cons t ts)
  show ?case
  proof (cases t)
    case (Inl c)
    with Cons.prems obtain r w' where "render reps ts w = (Inr r, w')" "plain_pmaps w'"
      "strip_tags False r = concat (map token_text ts)" using Cons.IH [of w] by auto
    with Inl Cons.prems show ?thesis by auto
  next
    case (Inr a)
    with Cons.prems obtain r w1 where d: "dorep reps a w = (Inr r, w1)" "plain_pmaps w1"
      "\<forall>x. strip_tags False (r @ x) = a @ strip_tags False x"
      using dorep_shown [of w a reps] assms(3) by auto
    with Inr Cons.prems obtain r' w' where "render reps ts w1 = (Inr r', w')" "plain_pmaps w'"
      "strip_tags False r' = concat (map token_text ts)" using Cons.IH [of w1] by auto
    with Inr d show ?thesis by auto
  qed
qed simp

text \<open>What is matched is an address or one of the names.\<close>

lemma hex_match_shape: "hex_match s = Some n \<Longrightarrow> n > 0 \<and> take 2 (take n s) = ''0x''"
  by (auto simp: hex_match_def Let_def min_def split: if_splits)

lemma reg_match_shape:
  assumes "reg_match names s = Some n"
  shows "n > 0 \<and> take n s \<in> set names"
proof -
  obtain k where k: "n = length k" and "List.find (\<lambda>n. n \<noteq> [] \<and> CHR ''$'' \<notin> set n \<and> take (length n) s = n) names = Some k"
    using assms unfolding reg_match_def by blast
  from this(2) obtain i where "i < length names" "names ! i = k" "k \<noteq> []" "take (length k) s = k"
    unfolding find_Some_iff by metis
  with k show ?thesis by (metis length_greater_0_conv nth_mem)
qed

lemma re_match_shape: "re_match names s = Some n \<Longrightarrow>
  n > 0 \<and> (take 2 (take n s) = ''0x'' \<or> take n s \<in> set names)"
  using hex_match_shape reg_match_shape by (simp add: re_match_def split: option.splits)

lemma re_tokens_shape: "Inr a \<in> set (re_tokens names s) \<Longrightarrow> take 2 a = ''0x'' \<or> a \<in> set names"
proof (induction names s rule: re_tokens.induct)
  case (1 names s)
  show ?case
  proof (cases s)
    case Nil
    with 1(4) show ?thesis by (subst (asm) re_tokens.simps) simp
  next
    case (Cons c cs)
    show ?thesis
    proof (cases "re_match names s")
      case None
      with Cons 1(4) have "Inr a \<in> set (re_tokens names cs)" by (subst (asm) re_tokens.simps) simp
      with Cons None 1 show ?thesis by simp
    next
      case (Some n)
      note m = re_match_shape [OF Some]
      with Some Cons 1(4) have "a = take n s \<or> Inr a \<in> set (re_tokens names (drop n s))"
        by (subst (asm) re_tokens.simps) simp
      moreover have "take 2 a = ''0x'' \<or> a \<in> set names" if "a = take n s"
        unfolding that by (rule conjunct2 [OF m])
      moreover have "take 2 a = ''0x'' \<or> a \<in> set names" if "Inr a \<in> set (re_tokens names (drop n s))"
        using 1(3) [OF Cons Some _ that] m by blast
      ultimately show ?thesis by blast
    qed
  qed
qed

text \<open>
  The opcode is wrapped after the replacement: up to the first blank of the markup. This is the first
  word of the text only when neither it nor the blank after it is part of a replaced token.
\<close>

lemma render_letters: "render reps (map Inl cs @ ts) w =
  (case render reps ts w of (Inl e, w) \<Rightarrow> (Inl e, w) | (Inr s, w) \<Rightarrow> (Inr (cs @ s), w))"
  by (induction cs) (auto split: prod.splits sum.splits)

definition op_word :: "string \<Rightarrow> string" where
  "op_word s = takeWhile (\<lambda>c. c \<noteq> CHR '' '' \<and> c \<noteq> CHR 0x09) s"

lemma wrap_op_text:
  assumes "no_markup (op_word s)"
  shows "strip_tags False (wrap_op s) = strip_tags False s"
proof -
  let ?i = "length (op_word s)"
  have t: "take ?i s = op_word s" by (simp add: op_word_def takeWhile_eq_take [symmetric])
  have "strip_tags False s = op_word s @ strip_tags False (drop ?i s)"
    using strip_tags_text [OF assms, of "drop ?i s"] t append_take_drop_id [of ?i s] by simp
  with t assms show ?thesis
    by (simp add: wrap_op_def op_word_def [symmetric] strip_tags_text)
qed


lemma letters_only: "list_all isl ts \<Longrightarrow> \<exists>cs. ts = map Inl cs"
proof (induction ts)
  case (Cons t ts)
  then obtain c cs where "t = Inl c" "ts = map Inl cs" by (cases t) auto
  then have "t # ts = map Inl (c # cs)" by simp
  then show ?case by (rule exI)
qed simp

lemma op_word_render:
  assumes r: "render reps ts w = (Inr s, w')"
    and l: "list_all isl (take (Suc (length (op_word (concat (map token_text ts))))) ts)"
  shows "op_word s = op_word (concat (map token_text ts))"
proof -
  define k where "k = Suc (length (op_word (concat (map token_text ts))))"
  obtain cs where cs: "take k ts = map Inl cs"
    using letters_only [OF l] unfolding k_def by blast
  then have ts: "ts = map Inl cs @ drop k ts" using append_take_drop_id [of k ts] by simp
  have "concat (map token_text (map Inl cs)) = cs" by (induction cs) auto
  then have tx: "concat (map token_text ts) = cs @ concat (map token_text (drop k ts))"
    using arg_cong [OF ts, of "\<lambda>ts. concat (map token_text ts)"] by simp
  obtain r' where s: "s = cs @ r'" and r': "render reps (drop k ts) w = (Inr r', w')"
    using r ts render_letters [of reps cs "drop k ts" w] by (auto split: prod.splits sum.splits)
  show ?thesis
  proof (cases "\<exists>c \<in> set cs. c = CHR '' '' \<or> c = CHR 0x09")
    case True
    then have "op_word (cs @ x) = op_word cs" for x by (auto simp: op_word_def)
    then show ?thesis unfolding tx s by simp
  next
    case False
    then have "length cs \<le> length (op_word (concat (map token_text ts)))"
      unfolding tx op_word_def by (subst takeWhile_append2) auto
    then have "length cs < k" by (simp add: k_def)
    then have "drop k ts = []" using arg_cong [OF cs, of length] by (simp add: min_def split: if_splits)
    with r' tx s show ?thesis by simp
  qed
qed


text \<open>
  Register tables within the colours whose names are plain, and instructions whose first word
  contains no register name and no address.
\<close>

definition plain_arch :: "world \<Rightarrow> bool" where
  "plain_arch w \<longleftrightarrow> (case arch w of None \<Rightarrow> True
     | Some (names, _) \<Rightarrow> length names \<le> length regcolors \<and> list_all (case_option True no_markup) names)"

definition plain_opcode :: "world \<Rightarrow> string \<Rightarrow> bool" where
  "plain_opcode w a \<longleftrightarrow> (case arch w of None \<Rightarrow> True
     | Some (names, p) \<Rightarrow> (case reg_reps (length names) names p [] of Inl _ \<Rightarrow> True
         | Inr reps \<Rightarrow> list_all isl (take (Suc (length (op_word (escapeHTML a)))) (re_tokens (map fst reps) (escapeHTML a)))))"

lemma op_word_plain: "no_markup s \<Longrightarrow> no_markup (op_word s)"
  by (auto simp: op_word_def no_markup_def dest: set_takeWhileD)

lemma highlight_instruction_text:
  assumes p: "plain_pmaps w" and a: "b \<Longrightarrow> plain_arch w"
  shows "\<exists>r w'. highlight_instruction (Some str) b w = (Inr r, w')
    \<and> ((b \<longrightarrow> plain_opcode w str) \<longrightarrow> strip_tags False r = escapeHTML str)"
proof -
  let ?e = "escapeHTML str"
  have e: "no_markup ?e" using escapeHTML_safe by blast
  have out: "strip_tags False (if b then wrap_op s else s) = ?e"
    if "strip_tags False s = ?e" and "b \<Longrightarrow> op_word s = op_word ?e" for s
    using that op_word_plain [OF e] wrap_op_text [of s] by auto
  show ?thesis
  proof (cases "arch w")
    case None
    then show ?thesis
      using out [of ?e] strip_tags_text [OF e, of "[]"] by (simp add: highlight_instruction_def Let_def)
  next
    case (Some ar)
    obtain names ptr where ar: "arch w = Some (names, ptr)" using Some by (cases ar) simp
    let ?regs = "if b then reg_reps (length names) names ptr [] else Inr []"
    obtain reps where reps: "?regs = Inr reps" "shows_keys reps"
    proof (cases b)
      case True
      with a ar have "length names \<le> length regcolors" "Some n \<in> set names \<Longrightarrow> no_markup n" for n
        by (auto simp: plain_arch_def list_all_iff)
      then obtain reps where "reg_reps (length names) names ptr [] = Inr reps" "shows_keys reps"
        using reg_reps_shown [of "length names" names "[]" ptr] by (auto simp: shows_keys_def)
      with True that show ?thesis by simp
    next
      case False
      with that [of "[]"] show ?thesis by (simp add: shows_keys_def)
    qed
    let ?ts = "re_tokens (map fst reps) ?e"
    have tx: "concat (map token_text ?ts) = ?e" by (rule re_tokens_text)
    obtain r w' where r: "render reps ?ts w = (Inr r, w')" "strip_tags False r = ?e"
      using render_text [of w ?ts reps] p e reps(2) re_tokens_shape [of _ "map fst reps" ?e] unfolding tx by auto
    have "op_word r = op_word ?e" if "b" "plain_opcode w str"
      using op_word_render [OF r(1)] that ar reps(1) unfolding tx by (simp add: plain_opcode_def)
    then show ?thesis using out [of r] r ar reps(1)
      by (cases b) (auto simp: highlight_instruction_def Let_def)
  qed
qed

text \<open>
  The hypothesis on the opcode is needed: on PowerPC, where \<open>lr\<close> is register 64, the opcode of \<open>blr\<close>
  contains a register name, the opcode's \<open>span\<close> ends inside of the register's tag, and the attributes
  of that tag are shown as text.
\<close>

lemma regcolors_length: "length regcolors = 80"
  by (simp add: regcolors_def)

lemma reg_reps_none: "(\<And>j. j < i \<Longrightarrow> names ! j = None) \<Longrightarrow> reg_reps i names p reps = Inr reps"
  by (induction i) simp_all

lemma opcode_register_tag:
  assumes "arch w = Some (replicate 64 None @ [Some ''lr''], p)"
  shows "\<exists>r. highlight_instruction (Some ''blr'') True w = (Inr r, w) \<and> take 8 (strip_tags False r) = ''b style=''"
proof -
  have lr: "map to_lower ''lr'' = ''lr''" by code_simp
  have "reg_reps (Suc 64) (replicate 64 None @ [Some ''lr'']) p [] = Inr [(''lr'', reg_rep 64 p ''lr'')]"
    using reg_reps_none [of 64 "replicate 64 None @ [Some ''lr'']"] lr
    unfolding reg_reps.simps(2) by (simp add: nth_append regcolors_length del: list.map)
  then have "reg_reps 65 (replicate 64 None @ [Some ''lr'']) p [] = Inr [(''lr'', reg_rep 64 p ''lr'')]" by simp
  moreover have "re_tokens [''lr''] ''blr'' = [Inl CHR ''b'', Inr ''lr'']" by code_simp
  moreover have "escapeHTML ''blr'' = ''blr''" by code_simp
  moreover have "wrap_op (CHR ''b'' # reg_rep 64 p ''lr'')
    = ''<span class='' @ dq @ ''op'' @ dq @ ''>b<span</span>'' @ drop 5 (reg_rep 64 p ''lr'')"
    by (simp add: wrap_op_def reg_rep_def)
  moreover have "strip_tags False (''<span class='' @ dq @ ''op'' @ dq @ ''>b<span</span>'' @ drop 5 (reg_rep 64 p ''lr''))
    = ''b style='' @ dq @ drop 1 (strip_tags False (dq @ drop 13 (reg_rep 64 p ''lr'')))"
    by (simp add: reg_rep_def)
  ultimately show ?thesis
    using assms by (simp add: highlight_instruction_def dorep_def)
qed

section \<open>Highlighting only reads\<close>

text \<open>All that highlighting can change is the list of keys read, while an autorun is tracked.\<close>

definition reads :: "world \<Rightarrow> world \<Rightarrow> bool" where
  "reads w w' \<longleftrightarrow> (\<exists>tr. w' = w\<lparr>mtrack := tr\<rparr> \<and> (tr = None \<longleftrightarrow> mtrack w = None))"

lemma reads_refl: "reads w w"
  unfolding reads_def by (rule exI [of _ "mtrack w"]) simp

lemma reads_trans: "reads a b \<Longrightarrow> reads b c \<Longrightarrow> reads a c"
  unfolding reads_def by force

lemma reads_session_get: "reads w (snd (session_get k d w))"
  by (cases "mtrack w") (auto simp: reads_def session_get_def intro: exI [of _ "mtrack w"])

lemma reads_get_data_type: "reads w (snd (get_data_type v f w))"
  using reads_session_get [of w] reads_refl [of w]
  by (auto simp: get_data_type_def split_beta Let_def split: sval.splits option.splits)

lemma reads_dorep: "reads w (snd (dorep reps a w))"
  using reads_get_data_type [of w "VStr a" False] reads_refl [of w]
  by (auto simp: dorep_def split: prod.splits sum.splits)

lemma reads_render: "reads w (snd (render reps ts w))"
proof (induction reps ts w rule: render.induct)
  case (3 reps m ts w)
  obtain r w1 where d: "dorep reps m w = (r, w1)" by fastforce
  have r1: "reads w w1" using reads_dorep [of w reps m] d by simp
  show ?case
  proof (cases r)
    case (Inl e)
    with d r1 show ?thesis by simp
  next
    case (Inr s)
    then have "reads w1 (snd (render reps ts w1))" using 3 d by simp
    from reads_trans [OF r1 this] d Inr show ?thesis by (auto split: sum.splits prod.splits)
  qed
qed (auto simp: reads_refl split: sum.splits prod.splits)

lemma reads_highlight: "reads w (snd (highlight_instruction a b w))"
proof (cases "a = None \<or> arch w = None")
  case True
  then show ?thesis by (auto simp: highlight_instruction_def Let_def reads_refl split: option.splits)
next
  case False
  then obtain str names ptr where a: "a = Some str" "arch w = Some (names, ptr)" by auto
  let ?r = "if b then reg_reps (length names) names ptr [] else Inr []"
  show ?thesis
  proof (cases ?r)
    case (Inl e)
    with a show ?thesis by (simp add: highlight_instruction_def Let_def reads_refl)
  next
    case (Inr reps)
    with a reads_render [of w reps "re_tokens (map fst reps) (escapeHTML str)"] show ?thesis
      by (auto simp: highlight_instruction_def Let_def split: sum.splits prod.splits)
  qed
qed

text \<open>Running one reader after the other, where the first may throw.\<close>

lemma reads_bind:
  assumes "reads w (snd p)" and "\<And>x v. p = (Inr x, v) \<Longrightarrow> reads v (snd (k x v))"
  shows "reads w (snd (case p of (Inl e, v) \<Rightarrow> (Inl e, v) | (Inr x, v) \<Rightarrow> k x v))"
proof -
  obtain r v where p: "p = (r, v)" by (cases p)
  with assms reads_trans [of w v] show ?thesis by (cases r) simp_all
qed

lemma readsD:
  assumes "reads w w'"
  shows "msession w' = msession w" "minv w' = minv w" "meteor.more w' = meteor.more w" "mtrack w = None \<Longrightarrow> w' = w"
    "engine w' = engine w"
  using assms by (auto simp: reads_def engine_def)

lemmas highlight_session [simp] = readsD(1) [OF reads_highlight]

lemmas engine_highlight [simp] = readsD(5) [OF reads_highlight] readsD(5) [OF reads_get_data_type]

lemma engine_rehighlight [simp]: "engine (rehighlight w) = engine w"
  by (simp add: rehighlight_def split_beta Let_def)

lemma engine_replace_names [simp]: "engine (replace_names w) = engine w"
  by (simp add: replace_names_def Let_def)

end
