(* ===== verification/Strace.thy ===== *)
theory Strace
  imports Highlight
begin

text \<open>
  \<open>web/client/strace.js\<close>: the list of system calls. A window \<open>sview\<close> of ten entries is shown; it
  follows the selected change and can be scrolled. Indices into the trace are integers below
  \<open>2\<^sup>3\<^sup>2\<close>, on which the arithmetic of the numbers is exact.
\<close>

section \<open>Drawing\<close>

text \<open>\<open>Array.prototype.slice\<close>: bounds are truncated, negative ones count from the end, all are clamped.\<close>

fun slice_bound :: "nat \<Rightarrow> jsnum \<Rightarrow> nat" where
  "slice_bound n NaN = 0"
| "slice_bound n PInf = n"
| "slice_bound n NInf = 0"
| "slice_bound n (Fin q) =
     (let k = (if q < 0 then \<lceil>q\<rceil> else \<lfloor>q\<rfloor>) in nat (if k < 0 then max 0 (int n + k) else min (int n) k))"

definition js_slice :: "jsnum \<Rightarrow> jsnum \<Rightarrow> 'a list \<Rightarrow> 'a list" where
  "js_slice a b xs = drop (slice_bound (length xs) a) (take (slice_bound (length xs) b) xs)"

fun strace_rows :: "syscall list \<Rightarrow> (js_error + string) handler" where
  "strace_rows [] w = (Inr [], w)"
| "strace_rows (st # msg) w =
     (case highlight_addresses (Some (sc_sc st)) w of
        (Inl e, w) \<Rightarrow> (Inl e, w)
      | (Inr h, w) \<Rightarrow>
          (case strace_rows msg w of
             (Inl e, w) \<Rightarrow> (Inl e, w)
           | (Inr rest, w) \<Rightarrow>
               (Inr (''<div class='' @ dq @ ''syscall'' @ dq @ ''><div class='' @ dq @ ''change clnum clnum_''
                  @ num_to_string 10 (sc_clnum st) @ dq @ ''>'' @ num_to_string 10 (sc_clnum st) @ ''</div>''
                  @ h @ ''</div>'' @ rest), w)))"

definition redraw_strace :: "world \<Rightarrow> world \<times> js_error option" where
  "redraw_strace w =
     (let (forknum, w) = session_get ''forknum'' False w;
          (sview, w) = session_get ''sview'' False w
      in case map_of (traces w) (prop_key forknum) of None \<Rightarrow> (w, None) | Some t \<Rightarrow>
      (case pair_of sview of None \<Rightarrow> (w, Some (TypeError ''sview is undefined'')) | Some (a, b) \<Rightarrow>
       (case strace_rows (js_slice a b t) w of
          (Inl e, w) \<Rightarrow> (w, Some e)
        | (Inr strace, w) \<Rightarrow> (rehighlight (set_dom ''strace'' strace w), None))))"

definition on_strace :: "string \<Rightarrow> syscall list \<Rightarrow> world \<Rightarrow> world \<times> js_error option" where
  "on_strace forknum dat w = redraw_strace (w\<lparr>traces := obj_put forknum dat (traces w)\<rparr>)"

definition autorun_redraw_strace :: "world \<Rightarrow> world \<times> js_error option" where
  "autorun_redraw_strace w = redraw_strace w"

section \<open>The window\<close>

text \<open>The index the search loop stops at: the first entry above the selected change.\<close>

fun first_above :: "jsnum \<Rightarrow> syscall list \<Rightarrow> nat" where
  "first_above clnum [] = 0"
| "first_above clnum (st # t) = (if js_lt clnum (sc_clnum st) then 0 else Suc (first_above clnum t))"

definition sview_window :: "int \<Rightarrow> int \<Rightarrow> int \<times> int" where
  "sview_window n i =
     (let mn = max 0 (i - 3); mx = mn + 10 in
      if n < mx then
        let off = mx - n; mx = mx - off; mn = mn - off in
        if mn < 0 then let mx = mx - mn; mn = 0 in (mn, mx) else (mn, mx)
      else (mn, mx))"

definition autorun_sview :: "world \<Rightarrow> world \<times> js_error option" where
  "autorun_sview w =
     (let (forknum, w) = session_get ''forknum'' False w;
          (clnum, w) = session_get ''clnum'' False w
      in case map_of (traces w) (prop_key forknum) of None \<Rightarrow> (w, None) | Some t \<Rightarrow>
      (let (mn, mx) = sview_window (int (length t)) (int (first_above (num_of clnum) t))
       in (session_set ''sview'' (Some (VPair (ji mn) (ji mx))) w, None)))"

text \<open>Load time: \<open>Session.setDefault('sview', [0,10])\<close>.\<close>

definition strace_init :: "world \<Rightarrow> world" where
  "strace_init w = session_setDefault ''sview'' (Some (VPair (ji 0) (ji 10))) w"

definition strace_mousewheel :: "jsnum \<Rightarrow> world \<Rightarrow> world \<times> js_error option" where
  "strace_mousewheel wheelDelta w =
     (let (sv, w) = session_get ''sview'' False w;
          (forknum, w) = session_get ''forknum'' False w
      in case map_of (traces w) (prop_key forknum) of None \<Rightarrow> (w, None) | Some t \<Rightarrow>
      (if js_lt wheelDelta (ji 0) then
         (case pair_of sv of None \<Rightarrow> (w, Some (TypeError ''sv is undefined'')) | Some (a, b) \<Rightarrow>
          (if js_lt b (ji (int (length t)))
           then (session_set ''sview'' (Some (VPair (js_add a (ji 1)) (js_add b (ji 1)))) w, None) else (w, None)))
       else if js_lt (ji 0) wheelDelta then
         (case pair_of sv of None \<Rightarrow> (w, Some (TypeError ''sv is undefined'')) | Some (a, b) \<Rightarrow>
          (if js_lt (ji 0) a
           then (session_set ''sview'' (Some (VPair (js_sub a (ji 1)) (js_sub b (ji 1)))) w, None) else (w, None)))
       else (w, None)))"

section \<open>What is shown\<close>

lemma slice_bound_ji: "slice_bound n (ji k) = nat (if k < 0 then max 0 (int n + k) else min (int n) k)"
  by (simp add: ji_def Let_def)

lemma js_slice_ints: "0 \<le> a \<Longrightarrow> 0 \<le> b \<Longrightarrow> js_slice (ji a) (ji b) xs = drop (nat a) (take (nat b) xs)"
  by (cases "int (length xs) \<le> a"; cases "int (length xs) \<le> b")
     (auto simp: js_slice_def slice_bound_ji min_def nat_le_iff le_nat_iff)

lemma first_above_le: "first_above c t \<le> length t"
  by (induction t) auto

lemma first_above_before: "j < first_above c t \<Longrightarrow> \<not> js_lt c (sc_clnum (t ! j))"
proof (induction t arbitrary: j)
  case (Cons st t)
  then show ?case by (cases j) (auto split: if_splits)
qed simp

lemma first_above_at: "first_above c t < length t \<Longrightarrow> js_lt c (sc_clnum (t ! first_above c t))"
  by (induction t) auto

text \<open>
  The window always has ten entries, starts at or after zero, ends inside a trace that has ten
  entries, and contains the last entry before \<open>i\<close>.
\<close>

lemma sview_window_ok:
  assumes "0 \<le> i" and "i \<le> n" and "sview_window n i = (mn, mx)"
  shows "mx = mn + 10" "0 \<le> mn" "mx \<le> max 10 n" "0 < i \<Longrightarrow> mn \<le> i - 1 \<and> i - 1 < mx"
  using assms by (auto simp: sview_window_def Let_def split: if_splits)

lemma sview_window_eq: "0 \<le> i \<Longrightarrow> sview_window n i = (max 0 (min (i - 3) (n - 10)), max 0 (min (i - 3) (n - 10)) + 10)"
  by (auto simp: sview_window_def Let_def)

text \<open>In a trace sorted by change number, the loop stops behind the calls not above the change.\<close>

lemma first_above_sorted:
  assumes "map sc_clnum t = map ji ks" and "sorted ks" and "safe k" "\<forall>k \<in> set ks. safe k" and "j < length t"
  shows "j < first_above (ji k) t \<longleftrightarrow> ks ! j \<le> k"
proof -
  let ?i = "first_above (ji k) t"
  have len: "length ks = length t" using assms(1) map_eq_imp_length_eq by metis
  have c: "sc_clnum (t ! a) = ji (ks ! a)" "safe (ks ! a)" if "a < length t" for a
    using that assms(1,4) len by (metis nth_map, metis nth_mem)
  show ?thesis
  proof
    assume "j < ?i"
    from first_above_before [OF this] c [OF assms(5)] assms(3) show "ks ! j \<le> k" by simp
  next
    assume j: "ks ! j \<le> k"
    show "j < ?i"
    proof (rule ccontr)
      assume "\<not> j < ?i"
      then have i: "?i \<le> j" "?i < length t" using assms(5) by simp_all
      then have "k < ks ! ?i" using first_above_at [of "ji k" t] c [of ?i] assms(3) by simp
      moreover have "ks ! ?i \<le> ks ! j" using assms(2,5) i len sorted_nth_mono by metis
      ultimately show False using j by simp
    qed
  qed
qed

lemma autorun_sview_session:
  assumes "mtrack w = None" and "map_of (traces w) (prop_key (msession w ''forknum'')) = Some t"
  shows "\<exists>mn mx. sview_window (int (length t)) (int (first_above (num_of (msession w ''clnum'')) t)) = (mn, mx)
    \<and> autorun_sview w = (session_set ''sview'' (Some (VPair (ji mn) (ji mx))) w, None)"
  using assms by (auto simp: autorun_sview_def split: prod.splits)

lemma strace_mousewheel_session:
  assumes "mtrack w = None" and "map_of (traces w) (prop_key (msession w ''forknum'')) = Some t"
    and "msession w ''sview'' = Some (VPair (ji a) (ji b))" and "0 \<le> a" "a \<le> b" "b < 2 ^ 52"
  shows "snd (strace_mousewheel d w) = None \<and>
   (\<exists>a' b'. msession (fst (strace_mousewheel d w)) ''sview'' = Some (VPair (ji a') (ji b'))
    \<and> b' - a' = b - a \<and> 0 \<le> a' \<and> b' \<le> max b (int (length t))
    \<and> (js_lt d (ji 0) \<and> b < int (length t) \<longrightarrow> a' = a + 1) \<and> (js_lt (ji 0) d \<and> 0 < a \<longrightarrow> a' = a - 1))"
proof -
  have [simp]: "js_add (ji a) (ji 1) = ji (a + 1)" "js_add (ji b) (ji 1) = ji (b + 1)"
    "js_sub (ji a) (ji 1) = ji (a - 1)" "js_sub (ji b) (ji 1) = ji (b - 1)"
    using assms by (auto simp: safe_def)
  have d: "\<not> (js_lt d (ji 0) \<and> js_lt (ji 0) d)" by (cases d) (auto simp: ji_def)
  show ?thesis
    using assms d by (auto simp: strace_mousewheel_def)
qed

end
