(* ===== verification/Vtimeline.thy ===== *)
theory Vtimeline
  imports Base "HOL-Library.List_Lexorder" "HOL-Library.Char_ord"
begin

text \<open>
  \<open>web/client/vtimeline.js\<close>: the vertical timelines (one per fork), their flags, the zoom window
  \<open>cview\<close> and the navigation between flags. Flags are kept in the object \<open>flags\<close>, keyed by the
  string \<open>fork,change\<close>, each with the list of flag types at that point.
\<close>

section \<open>The flag table\<close>

definition flag_key :: "string \<Rightarrow> string \<Rightarrow> string" where
  "flag_key forknum clnum = forknum @ '','' @ clnum"

definition flag_fork :: "string \<Rightarrow> jsnum" where
  "flag_fork arr = fdec (hd (js_split CHR '','' arr))"

definition flag_clnum :: "string \<Rightarrow> jsnum" where
  "flag_clnum arr = (case js_split CHR '','' arr of _ # c # _ \<Rightarrow> fdec c | _ \<Rightarrow> NaN)"

definition add_flag :: "string \<Rightarrow> string \<Rightarrow> string \<Rightarrow> (string \<times> string list) list \<Rightarrow> (string \<times> string list) list" where
  "add_flag type forknum clnum fl =
     (let t = flag_key forknum clnum in
      case map_of fl t of Some ts \<Rightarrow> obj_put t (ts @ [type]) fl | None \<Rightarrow> obj_put t [type] fl)"

text \<open>The loop that splices a type out of one entry as long as \<open>indexOf\<close> finds it.\<close>

function splice_type :: "'a \<Rightarrow> 'a list \<Rightarrow> 'a list" where
  "splice_type type ts = (case index_of type ts of None \<Rightarrow> ts | Some i \<Rightarrow> splice_type type (splice1 i ts))"
  by pat_completeness auto
termination
  by (relation "measure (length \<circ> snd)") (auto dest: index_of_SomeD simp: length_splice1)

declare splice_type.simps [simp del]

fun remove_flags :: "string \<Rightarrow> jsnum option \<Rightarrow> (string \<times> string list) list \<Rightarrow> (string \<times> string list) list" where
  "remove_flags type forknum [] = []"
| "remove_flags type forknum ((arr, ts) # fl) =
     (if (case forknum of Some f \<Rightarrow> \<not> js_eq f (flag_fork arr) | None \<Rightarrow> False)
      then (arr, ts) # remove_flags type forknum fl
      else let ts' = splice_type type ts
           in if ts' = [] then remove_flags type forknum fl else (arr, ts') # remove_flags type forknum fl)"

section \<open>Scale and pictures\<close>

definition get_cscale :: "jsnum option handler" where
  "get_cscale w =
     (let (cv, w) = session_get ''cview'' False w in
      case pair_of cv of
        None \<Rightarrow> (None, w)
      | Some (c0, c1) \<Rightarrow>
          (case box_height w of
             None \<Rightarrow> (None, w)
           | Some h \<Rightarrow> (Some (js_div (js_sub c1 c0) (js_sub h (ji 100))), w)))"

definition vt_upd :: "string \<Rightarrow> (vtel \<Rightarrow> vtel) \<Rightarrow> world \<Rightarrow> world" where
  "vt_upd forknum g w = w\<lparr>vtimelines := map (\<lambda>(k, v). if k = forknum then (k, g v) else (k, v)) (vtimelines w)\<rparr>"

definition update_picture :: "string \<Rightarrow> world \<Rightarrow> world \<times> js_error option" where
  "update_picture forknum w =
     (case map_of (vtimelines w) forknum of None \<Rightarrow> (w, None) | Some _ \<Rightarrow>
      (let w = vt_upd forknum (\<lambda>v. v\<lparr>vt_bg := ''''\<rparr>) w in
       case map_of (overlays w) forknum of None \<Rightarrow> (w, None) | Some (ov0, ov1, ov2) \<Rightarrow>
       (let (cv, w) = session_get ''cview'' False w in
        case pair_of cv of None \<Rightarrow> (w, None) | Some (c0, c1) \<Rightarrow>
        (let (mc, w) = session_get ''max_clnum'' False w in
         case forks_of mc of None \<Rightarrow> (w, None) | Some maxclnum \<Rightarrow>
         (case map_of maxclnum forknum of
            None \<Rightarrow> (w, Some (TypeError ''max is undefined''))
          | Some (m0, m1) \<Rightarrow>
              (let loading_scale = js_div (js_mul (js_sub ov1 ov0) (ji 1)) (js_sub m1 m0);
                   w = vt_upd forknum (\<lambda>v. v\<lparr>vt_bg := ov2\<rparr>) w;
                   (cs, w) = get_cscale w;
                   cscale = (case cs of None \<Rightarrow> NaN | Some c \<Rightarrow> c)
               in (vt_upd forknum (\<lambda>v. v\<lparr>
                     vt_bgsize := Some (js_mul (js_div m1 cscale) loading_scale),
                     vt_bgpos := Some (js_mul (ji (- 1)) (js_div (js_sub (js_max m0 c0) m0) cscale))\<rparr>) w, None)))))))"

definition on_setpicture :: "string \<Rightarrow> jsnum \<Rightarrow> jsnum \<Rightarrow> string \<Rightarrow> world \<Rightarrow> world \<times> js_error option" where
  "on_setpicture forknum minclnum maxclnum data w =
     update_picture forknum (w\<lparr>overlays := obj_put forknum (minclnum, maxclnum, data) (overlays w)\<rparr>)"

section \<open>Drawing\<close>

definition vt_new :: vtel where
  "vt_new = \<lparr>vt_bg = '''', vt_bgsize = None, vt_bgpos = None, vt_height = None, vt_top = None, vt_flags = []\<rparr>"

text \<open>One fork of the loop in \<open>redraw_vtimelines\<close>.\<close>

definition redraw_fork :: "jsnum \<Rightarrow> jsnum \<times> jsnum \<Rightarrow> string \<times> jsnum \<times> jsnum \<Rightarrow> world \<Rightarrow> world \<times> js_error option" where
  "redraw_fork scale cview entry w = (case cview of (c0, c1) \<Rightarrow> case entry of (forknum, m0, m1) \<Rightarrow>
     (let w = (if js_lt m0 c0 \<and> js_lt c0 m1 then w\<lparr>flags := add_flag ''zoom'' forknum (num_to_string 10 c0) (flags w)\<rparr> else w);
          w = (if js_lt m0 c1 \<and> js_lt c1 m1 then w\<lparr>flags := add_flag ''zoom'' forknum (num_to_string 10 c1) (flags w)\<rparr> else w);
          w = (if map_of (vtimelines w) forknum = None then w\<lparr>vtimelines := vtimelines w @ [(forknum, vt_new)]\<rparr> else w)
      in and_then (update_picture forknum w) (\<lambda>w.
        let range = js_max (ji 0) (js_sub (js_min m1 c1) (js_max m0 c0));
            topp = (if js_lt c0 m0 then js_ceil (js_div (js_sub m0 c0) scale) else ji 0);
            real_height = js_ceil (js_div range scale)
        in (vt_upd forknum (\<lambda>v. v\<lparr>vt_height := Some real_height, vt_top := Some topp\<rparr>) w, None))))"

fun redraw_forks :: "jsnum \<Rightarrow> jsnum \<times> jsnum \<Rightarrow> forks \<Rightarrow> world \<Rightarrow> world \<times> js_error option" where
  "redraw_forks scale cview [] w = (w, None)"
| "redraw_forks scale cview (e # es) w =
     and_then (redraw_fork scale cview e w) (redraw_forks scale cview es)"

definition redraw_vtimelines :: "jsnum \<Rightarrow> world \<Rightarrow> world \<times> js_error option" where
  "redraw_vtimelines scale w =
     (let (cv, w) = session_get ''cview'' False w in
      case pair_of cv of None \<Rightarrow> (w, None) | Some cview \<Rightarrow>
      (let (mc, w) = session_get ''max_clnum'' False w in
       case forks_of mc of None \<Rightarrow> (w, None) | Some maxclnum \<Rightarrow>
       (let w = w\<lparr>vtimelines := filter (\<lambda>(k, v). map_of maxclnum k \<noteq> None) (vtimelines w)\<rparr>;
            w = w\<lparr>flags := remove_flags ''zoom'' None (flags w)\<rparr>
        in redraw_forks scale cview maxclnum w)))"

definition colors :: "(string \<times> string) list" where
  "colors = [(''bounds'', ''green''), (''change'', ''blue''), (''ciaddr'', ''#AA0000''),
    (''daddrr'', ''#888800''), (''daddrw'', ''yellow''), (''slice'', ''#000088''), (''zoom'', ''gray'')]"

definition color_of :: "string \<Rightarrow> string" where
  "color_of t = (case map_of colors t of Some c \<Rightarrow> c | None \<Rightarrow> ''undefined'')"

text \<open>
  The style of a flag. An entry with several types has them sorted in place first;
  \<open>haschange\<close> becomes true as soon as any type is a non-empty string.
\<close>

definition flag_style :: "string list \<Rightarrow> string" where
  "flag_style cols = (case cols of
      [c] \<Rightarrow> ''background-color:'' @ color_of c @ ''; color:'' @ color_of c
    | _ \<Rightarrow> ''background: linear-gradient(to right'' @ concat (map (\<lambda>c. '','' @ color_of c) cols) @ '')''
          @ (if \<exists>c \<in> set cols. c \<noteq> '''' then '';z-index:2'' else ''''))"

definition sort_cols :: "string list \<Rightarrow> string list" where
  "sort_cols ts = (if length ts = 1 then ts else sort ts)"

text \<open>The entries of the flag table that get drawn, with the fork they belong to.\<close>

definition draw_flag :: "forks \<Rightarrow> jsnum \<times> jsnum \<Rightarrow> jsnum \<Rightarrow> string \<times> string list \<Rightarrow> (string \<times> flag_div) option" where
  "draw_flag maxclnum cview cscale e = (case e of (arr, ts) \<Rightarrow> case cview of (c0, c1) \<Rightarrow>
     if ts = [] then None
     else let forknum = flag_fork arr in
       case map_of maxclnum (num_to_string 10 forknum) of None \<Rightarrow> None | Some (m0, m1) \<Rightarrow>
       (let clnum = flag_clnum arr in
        if js_lt clnum c0 \<or> js_lt c1 clnum then None
        else Some (num_to_string 10 forknum, \<lparr>fd_clnum = clnum, fd_sty = flag_style (sort_cols ts),
               fd_pos = js_div (js_sub clnum (js_max m0 c0)) cscale\<rparr>)))"

definition sort_flag :: "forks \<Rightarrow> jsnum \<times> jsnum \<Rightarrow> jsnum \<Rightarrow> string \<times> string list \<Rightarrow> string \<times> string list" where
  "sort_flag maxclnum cview cscale e =
     (if draw_flag maxclnum cview cscale e = None then e else (fst e, sort_cols (snd e)))"

definition redraw_flags :: "world \<Rightarrow> world \<times> js_error option" where
  "redraw_flags w =
     (let (cv, w) = session_get ''cview'' False w in
      case pair_of cv of None \<Rightarrow> (w, None) | Some cview \<Rightarrow>
      (let (mc, w) = session_get ''max_clnum'' False w in
       case forks_of mc of None \<Rightarrow> (w, None) | Some maxclnum \<Rightarrow>
       (let (cs, w) = get_cscale w in
        case cs of None \<Rightarrow> (w, None) | Some cscale \<Rightarrow>
        (let w = w\<lparr>vtimelines := map (\<lambda>(k, v). (k, v\<lparr>vt_flags := []\<rparr>)) (vtimelines w)\<rparr>
         in and_then (redraw_vtimelines cscale w) (\<lambda>w.
           let flags_out = List.map_filter (draw_flag maxclnum cview cscale) (flags w)
           in (w\<lparr>flags := map (sort_flag maxclnum cview cscale) (flags w),
                 vtimelines := map (\<lambda>(k, v). (k,
                    if k \<in> fst ` set flags_out
                    then v\<lparr>vt_flags := map snd (filter (\<lambda>(f, d). f = k) flags_out)\<rparr> else v)) (vtimelines w)\<rparr>, None))))))"

definition delete_all_forks :: "world \<Rightarrow> world \<times> js_error option" where
  "delete_all_forks w =
     (let (mc, w) = session_get ''max_clnum'' False w;
          fs = (case forks_of mc of None \<Rightarrow> [] | Some fs \<Rightarrow> fs)
      in redraw_flags (fold (\<lambda>(k, _). emit ''deletefork'' [Some (VNum (fdec k))]) fs w))"

section \<open>Zooming and clicking\<close>

definition vtimelinebox_mousewheel :: "jsnum \<Rightarrow> world \<Rightarrow> world" where
  "vtimelinebox_mousewheel wheelDelta w =
     (let (mx, w) = abs_maxclnum w in
      case mx of None \<Rightarrow> w | Some mxv \<Rightarrow>
      (let (cv, w) = session_get ''cview'' False w in
       case pair_of cv of None \<Rightarrow> w | Some (c0, c1) \<Rightarrow>
       (let (cs, w) = get_cscale w in
        case cs of None \<Rightarrow> w | Some cscale \<Rightarrow>
        (let move = js_round (js_mul cscale (ji 50)) in
         if js_lt (ji 0) wheelDelta
         then let move = (if js_lt (js_sub c0 move) (ji 0) then c0 else move)
              in session_set ''cview'' (Some (VPair (js_sub c0 move) (js_sub c1 move))) w
         else let move = (if js_lt mxv (js_add c1 move) then js_sub mxv c1 else move)
              in session_set ''cview'' (Some (VPair (js_add c0 move) (js_add c1 move))) w))))"

text \<open>
  Mouse events carry the id of their target element, the button and the vertical position.
  \<open>get_clnum\<close> answers for a timeline or the box only.
\<close>

definition get_clnum :: "string \<Rightarrow> jsnum \<Rightarrow> jsnum option handler" where
  "get_clnum target pageY w =
     (if target \<noteq> ''vtimelinebox'' \<and> target \<notin> (\<lambda>(k, v). ''vtimeline'' @ k) ` set (vtimelines w) then (None, w)
      else let (mx, w) = abs_maxclnum w in
      case mx of None \<Rightarrow> (None, w) | Some mxv \<Rightarrow>
      (let (cv, w) = session_get ''cview'' False w in
       case pair_of cv of None \<Rightarrow> (None, w) | Some (c0, c1) \<Rightarrow>
       (let (cs, w) = get_cscale w in
        case cs of None \<Rightarrow> (None, w) | Some cscale \<Rightarrow>
        (let clret = js_round (js_add (js_mul pageY cscale) c0)
         in (Some (if js_lt mxv clret then mxv else clret), w)))))"

definition get_forknum :: "string \<Rightarrow> jsnum" where
  "get_forknum target =
     (if take 9 target = ''vtimeline''
      then (let fn = drop 9 target in if fn = ''box'' then ji (- 1) else fdec fn)
      else fdec ''undefined'')"

definition vtimelinebox_mousedown :: "string \<Rightarrow> int \<Rightarrow> jsnum \<Rightarrow> world \<Rightarrow> world" where
  "vtimelinebox_mousedown target button pageY w =
     (let w = (if button = 1 then zoom_out_max None w else w) in
      if button \<noteq> 0 then w
      else let (cl, w) = get_clnum target pageY w in
        case cl of None \<Rightarrow> w | Some clnum \<Rightarrow> w\<lparr>drag_down := clnum, drag_fork := get_forknum target\<rparr>)"

definition vtimelinebox_contextmenu :: "string \<Rightarrow> world \<Rightarrow> world \<times> js_error option" where
  "vtimelinebox_contextmenu target w =
     (let forknum = get_forknum target in
      if \<not> js_eq forknum (ji (- 1)) then redraw_flags (emit ''deletefork'' [Some (VNum forknum)] w)
      else (w, None))"

definition vtimelinebox_mouseup :: "string \<Rightarrow> int \<Rightarrow> jsnum \<Rightarrow> world \<Rightarrow> world" where
  "vtimelinebox_mouseup target button pageY w =
     (if button \<noteq> 0 then w
      else let (u, w) = get_clnum target pageY w in
        case u of None \<Rightarrow> w | Some up \<Rightarrow>
        (let forknum = get_forknum target; down = drag_down w in
         if js_eq down (ji (- 1)) then w
         else if js_eq down up then
           (if \<not> js_eq forknum (ji (- 1))
            then push_history False (session_set ''forknum'' (Some (VNum forknum))
                   (session_set ''clnum'' (Some (VNum down)) w))
            else w)
         else if js_lt down up then push_history False (session_set ''cview'' (Some (VPair down up)) w)
         else if js_lt up down then push_history False (session_set ''cview'' (Some (VPair up down)) w)
         else w))"

section \<open>Going to a flag\<close>

text \<open>The changes of the current fork that carry a flag of the wanted kind.\<close>

definition flag_matches :: "bool \<Rightarrow> string list \<Rightarrow> bool" where
  "flag_matches data ts = (if data then ''daddrr'' \<in> set ts \<or> ''daddrw'' \<in> set ts else ''ciaddr'' \<in> set ts)"

definition flag_targets :: "bool \<Rightarrow> sval option \<Rightarrow> sval option \<Rightarrow> (string \<times> string list) list \<Rightarrow> jsnum list" where
  "flag_targets data gforknum gclnum fl =
     map (\<lambda>(arr, ts). flag_clnum arr)
       (filter (\<lambda>(arr, ts). \<not> (gclnum \<noteq> None \<and> js_eq (flag_clnum arr) (num_of gclnum))
          \<and> flag_matches data ts \<and> js_eq (flag_fork arr) (num_of gforknum)) fl)"

definition go_to_flag :: "bool \<Rightarrow> bool \<Rightarrow> world \<Rightarrow> world" where
  "go_to_flag next data w =
     (let (gclnum, w) = session_get ''clnum'' False w;
          (gforknum, w) = session_get ''forknum'' False w;
          found = flag_targets data gforknum gclnum (flags w)
      in case gclnum of
        None \<Rightarrow> \<comment> \<open>\<open>undefined\<close> sorts to the end\<close>
          (let cls = js_sort js_sub found
           in push_history False
                (if \<not> next \<and> cls \<noteq> [] then session_set ''clnum'' (Some (VNum (last cls))) w else w))
      | Some g \<Rightarrow>
          (let cls = js_sort js_sub (num_of (Some g) # found) in
           case (if num_of (Some g) = NaN then None else index_of (num_of (Some g)) cls) of
             None \<Rightarrow> w
           | Some idx \<Rightarrow>
               push_history False
                 (if next
                  then (if idx + 1 < length cls then session_set ''clnum'' (Some (VNum (cls ! (idx + 1)))) w else w)
                  else (if idx \<ge> 1 then session_set ''clnum'' (Some (VNum (cls ! (idx - 1)))) w else w))))"

section \<open>The autoruns and the answer to getchanges\<close>

fun add_bounds :: "forks \<Rightarrow> forks \<Rightarrow> world \<Rightarrow> world \<times> js_error option" where
  "add_bounds maxclnum [] w = (w, None)"
| "add_bounds maxclnum ((k, _) # fs) w =
     (let forknum = num_to_string 10 (fdec k) in
      case map_of maxclnum forknum of
        None \<Rightarrow> (w, Some (TypeError ''maxclnum of fork''))
      | Some (lo, hi) \<Rightarrow>
          add_bounds maxclnum fs (w\<lparr>flags :=
            add_flag ''bounds'' forknum (num_to_string 10 hi)
              (add_flag ''bounds'' forknum (num_to_string 10 lo) (flags w))\<rparr>))"

definition autorun_bounds :: "world \<Rightarrow> world \<times> js_error option" where
  "autorun_bounds w =
     (let (mc, w) = session_get ''max_clnum'' False w in
      case forks_of mc of None \<Rightarrow> (w, None) | Some maxclnum \<Rightarrow>
      and_then (add_bounds maxclnum maxclnum (w\<lparr>flags := remove_flags ''bounds'' None (flags w)\<rparr>)) redraw_flags)"

text \<open>Key part of an array element: \<open>undefined\<close> prints as the empty string.\<close>

definition elem_key :: "sval option \<Rightarrow> string" where
  "elem_key v = (if v = None then '''' else prop_key v)"

definition autorun_change :: "world \<Rightarrow> world \<times> js_error option" where
  "autorun_change w =
     (let (forknum, w) = session_get ''forknum'' False w;
          (clnum, w) = session_get ''clnum'' False w
      in redraw_flags (w\<lparr>flags := add_flag ''change'' (elem_key forknum) (elem_key clnum)
           (remove_flags ''change'' None (flags w))\<rparr>))"

definition autorun_getchanges_iaddr :: "world \<Rightarrow> world \<times> js_error option" where
  "autorun_getchanges_iaddr w =
     (let (_, w) = session_get ''max_clnum'' False w;
          (cview, w) = session_get ''cview'' False w;
          (iaddr, w) = session_get ''iaddr'' False w;
          (clnum, w) = session_get ''clnum'' False w;
          (cs, w) = get_cscale w
      in (emit ''getchanges'' [Some (VNum (ji (- 1))), iaddr, Some (VStr ''I''), cview, map_option VNum cs, clnum] w, None))"

definition autorun_getchanges_daddr :: "world \<Rightarrow> world \<times> js_error option" where
  "autorun_getchanges_daddr w =
     (let (_, w) = session_get ''max_clnum'' False w;
          (cview, w) = session_get ''cview'' False w;
          (daddr, w) = session_get ''daddr'' False w;
          (clnum, w) = session_get ''clnum'' False w;
          (cs, w) = get_cscale w;
          w = emit ''getchanges'' [Some (VNum (ji (- 1))), daddr, Some (VStr ''L''), cview, map_option VNum cs, clnum] w
      in (emit ''getchanges'' [Some (VNum (ji (- 1))), daddr, Some (VStr ''S''), cview, map_option VNum cs, clnum] w, None))"

fun closest_loop :: "jsnum \<Rightarrow> jsnum list \<Rightarrow> (jsnum \<times> jsnum) option \<Rightarrow> jsnum option" where
  "closest_loop clnum [] best = map_option fst best"
| "closest_loop clnum (c # cs) best =
     (let ldiff = js_abs (js_sub c clnum) in
      closest_loop clnum cs (case best of None \<Rightarrow> Some (c, ldiff)
        | Some (b, diff) \<Rightarrow> if js_lt ldiff diff then Some (c, ldiff) else Some (b, diff)))"

definition change_types :: "(string \<times> string) list" where
  "change_types = [(''I'', ''ciaddr''), (''L'', ''daddrr''), (''S'', ''daddrw'')]"

definition add_changes :: "string \<Rightarrow> (string \<times> jsnum list) list \<Rightarrow> (string \<times> string list) list \<Rightarrow> (string \<times> string list) list" where
  "add_changes type cls fl =
     fold (\<lambda>(forknum, cs). fold (\<lambda>c. add_flag type forknum (num_to_string 10 c)) cs) cls fl"

text \<open>
  The first half of \<open>on_changes\<close>: when an instruction address was chosen elsewhere (\<open>dirtyiaddr\<close>) and
  the current change is not among its executions, the closest one is selected.
\<close>

definition select_closest :: "string \<Rightarrow> (string \<times> jsnum list) list \<Rightarrow> world \<Rightarrow> world" where
  "select_closest mtype mclnums w =
     (let (fn, w) = session_get ''forknum'' False w;
          clnums = map_of mclnums (prop_key fn);
          (cl, w) = session_get ''clnum'' False w
      in case clnums of
           Some cs \<Rightarrow>
             (if mtype = ''I'' \<and> (cl = None \<or> num_of cl = NaN \<or> num_of cl \<notin> set cs) then
                let (dirty, w) = session_get ''dirtyiaddr'' False w in
                if bool_of dirty then
                  let closest = closest_loop (num_of cl) cs None;
                      w = (case closest of Some c \<Rightarrow>
                             (if cl = None \<or> \<not> js_eq c (num_of cl) then session_set ''clnum'' (Some (VNum c)) w else w)
                           | None \<Rightarrow> w)
                  in session_set ''dirtyiaddr'' (Some (VBool False)) w
                else w
              else w)
         | None \<Rightarrow> w)"

definition change_type :: "string \<Rightarrow> string" where
  "change_type mtype = (case map_of change_types mtype of Some t \<Rightarrow> t | None \<Rightarrow> ''undefined'')"

definition on_changes :: "string \<Rightarrow> (string \<times> jsnum list) list \<Rightarrow> world \<Rightarrow> world \<times> js_error option" where
  "on_changes mtype mclnums w =
     (let w = select_closest mtype mclnums w; type = change_type mtype
      in redraw_flags (w\<lparr>flags := add_changes type mclnums (remove_flags type None (flags w))\<rparr>))"

section \<open>The flag table and its contract\<close>

definition types_at :: "(string \<times> string list) list \<Rightarrow> string \<Rightarrow> string list" where
  "types_at fl k = (case map_of fl k of Some ts \<Rightarrow> ts | None \<Rightarrow> [])"

definition finv :: "(string \<times> string list) list \<Rightarrow> bool" where
  "finv fl \<longleftrightarrow> distinct (map fst fl) \<and> (\<forall>(k, ts) \<in> set fl. ts \<noteq> [])"

lemma splice_type_removeAll [simp]: "splice_type t ts = removeAll t ts"
proof (induction t ts rule: splice_type.induct)
  case (1 t ts)
  show ?case
  proof (cases "index_of t ts")
    case None
    then have "splice_type t ts = ts" by (subst splice_type.simps) (simp del: index_of_None)
    with None show ?thesis by simp
  next
    case (Some i)
    then have "splice_type t ts = removeAll t (remove1 t ts)"
      using 1 by (subst splice_type.simps) (simp add: splice1_index_of)
    also have "\<dots> = removeAll t ts" by (induction ts) auto
    finally show ?thesis .
  qed
qed

lemma remove_flags_keys: "fst ` set (remove_flags t n fl) \<subseteq> fst ` set fl"
proof (induction fl)
  case (Cons p fl)
  obtain arr ts where "p = (arr, ts)" by (cases p)
  with Cons show ?case by (auto simp: Let_def split: if_splits)
qed simp

lemma remove_flags_finv: "finv fl \<Longrightarrow> finv (remove_flags t n fl)"
proof (induction fl)
  case (Cons p fl)
  obtain arr ts where p: "p = (arr, ts)" by (cases p)
  have "finv (remove_flags t n fl)" "ts \<noteq> []" "arr \<notin> fst ` set (remove_flags t n fl)"
    using Cons p remove_flags_keys [of t n fl] by (auto simp: finv_def)
  then show ?case by (simp add: finv_def Let_def p)
qed (simp add: finv_def)

lemma types_at_Cons: "types_at ((a, ts) # fl) k = (if k = a then ts else types_at fl k)"
  by (simp add: types_at_def)

lemma types_at_absent: "k \<notin> fst ` set fl \<Longrightarrow> types_at fl k = []"
  by (metis map_of_eq_None_iff option.simps(4) types_at_def)

lemma types_at_remove_flags:
  "finv fl \<Longrightarrow> types_at (remove_flags t n fl) k =
    (if (case n of Some f \<Rightarrow> \<not> js_eq f (flag_fork k) | None \<Rightarrow> False) then types_at fl k
     else removeAll t (types_at fl k))"
proof (induction fl)
  case (Cons p fl)
  obtain arr ts where p: "p = (arr, ts)" by (cases p)
  have "types_at (remove_flags t n fl) arr = []" "types_at fl arr = []"
    using Cons.prems p remove_flags_keys [of t n fl] by (auto simp: finv_def intro!: types_at_absent)
  moreover have "finv fl" using Cons.prems by (simp add: finv_def)
  ultimately show ?case using Cons.IH by (cases n) (auto simp: p Let_def types_at_Cons)
qed (simp add: types_at_def)

lemma types_at_add_flag:
  "types_at (add_flag t f c fl) k = types_at fl k @ (if k = flag_key f c then [t] else [])"
  by (auto simp: types_at_def add_flag_def Let_def split: option.splits)

lemma add_flag_finv: "finv fl \<Longrightarrow> finv (add_flag t f c fl)"
  by (auto simp: finv_def add_flag_def Let_def distinct_obj_put set_obj_put split: option.splits)

text \<open>
  The contract of the flag table: what is at a point after a flag is added or a type removed. Its
  clients are the autoruns and the message handlers that replace all flags of one type.
\<close>

locale flag_table =
  fixes add :: "string \<Rightarrow> 'p \<Rightarrow> 't \<Rightarrow> 't"
    and remove :: "string \<Rightarrow> 't \<Rightarrow> 't"
    and pts :: "'t \<Rightarrow> 'p \<Rightarrow> string list"
    and ok :: "'t \<Rightarrow> bool"
  assumes at_add: "ok fl \<Longrightarrow> pts (add t p fl) q = pts fl q @ (if q = p then [t] else [])"
    and at_remove: "ok fl \<Longrightarrow> pts (remove t fl) q = removeAll t (pts fl q)"
    and ok_add: "ok fl \<Longrightarrow> ok (add t p fl)"
    and ok_remove: "ok fl \<Longrightarrow> ok (remove t fl)"
begin

lemma ok_fold: "ok fl \<Longrightarrow> ok (fold (add t) ps fl)"
  by (induction ps arbitrary: fl) (auto simp: ok_add)

lemma at_fold: "ok fl \<Longrightarrow> pts (fold (add t) ps fl) q = pts fl q @ replicate (count_list ps q) t"
  by (induction ps arbitrary: fl) (auto simp: ok_add at_add replicate_app_Cons_same)

text \<open>Replacing: afterwards the type is exactly at the given points, every other type as before.\<close>

lemma at_replace: "ok fl \<Longrightarrow>
    pts (fold (add t) ps (remove t fl)) q = removeAll t (pts fl q) @ replicate (count_list ps q) t"
  by (simp add: at_fold ok_remove at_remove)

lemma count_replace: "ok fl \<Longrightarrow>
    count_list (pts (fold (add t) ps (remove t fl)) q) u
      = (if u = t then count_list ps q else count_list (pts fl q) u)"
proof -
  have [simp]: "count_list (removeAll t xs) u = (if u = t then 0 else count_list xs u)" for xs
    by (induction xs) auto
  have [simp]: "count_list (replicate n t) u = (if u = t then n else 0)" for n
    by (induction n) auto
  show "ok fl \<Longrightarrow> ?thesis" by (simp add: at_replace)
qed

end


text \<open>The table is keyed by the string itself, so its points are strings.\<close>

definition put_flag :: "string \<Rightarrow> string \<Rightarrow> (string \<times> string list) list \<Rightarrow> (string \<times> string list) list" where
  "put_flag t k fl = obj_put k (types_at fl k @ [t]) fl"

lemma add_flag_put: "add_flag t f c = put_flag t (flag_key f c)"
  by (auto simp: fun_eq_iff add_flag_def put_flag_def types_at_def Let_def split: option.splits)

interpretation ft: flag_table put_flag "\<lambda>t. remove_flags t None" types_at finv
proof unfold_locales
  fix fl :: "(string \<times> string list) list" and t p q
  assume fl: "finv fl"
  show "types_at (put_flag t p fl) q = types_at fl q @ (if q = p then [t] else [])"
    by (auto simp: put_flag_def types_at_def)
  show "types_at (remove_flags t None fl) q = removeAll t (types_at fl q)"
    using types_at_remove_flags [OF fl, of t None] by simp
  show "finv (put_flag t p fl)"
    using fl by (auto simp: finv_def put_flag_def distinct_obj_put set_obj_put)
  show "finv (remove_flags t None fl)"
    using fl by (rule remove_flags_finv)
qed

lemma add_changes_put: "add_changes t cls = fold (put_flag t)
    (concat (map (\<lambda>(f, cs). map (\<lambda>c. flag_key f (num_to_string 10 c)) cs) cls))"
proof -
  have inner: "fold (\<lambda>c. add_flag t f (num_to_string 10 c)) cs
      = fold (put_flag t) (map (\<lambda>c. flag_key f (num_to_string 10 c)) cs)" for f cs
    by (induction cs) (simp_all add: add_flag_put fun_eq_iff)
  show ?thesis
    by (induction cls) (auto simp: add_changes_def fun_eq_iff inner fold_append split: prod.splits)
qed

section \<open>Redrawing keeps the flags\<close>

text \<open>
  Redrawing recomputes the zoom flags and sorts the types of the drawn entries, and otherwise
  leaves the table alone: every other flag stays where it is, as often as it was.
\<close>

definition keeps :: "(string \<times> string list) list \<Rightarrow> (string \<times> string list) list \<Rightarrow> bool" where
  "keeps fl fl' \<longleftrightarrow> finv fl' \<and> (\<forall>k t. t \<noteq> ''zoom'' \<longrightarrow> count_list (types_at fl' k) t = count_list (types_at fl k) t)"

lemma keeps_refl: "finv fl \<Longrightarrow> keeps fl fl" by (simp add: keeps_def)

lemma keeps_trans: "keeps a b \<Longrightarrow> keeps b c \<Longrightarrow> keeps a c" by (simp add: keeps_def)

lemma keeps_add_zoom: "finv fl \<Longrightarrow> keeps fl (add_flag ''zoom'' f c fl)"
  by (simp add: keeps_def add_flag_finv types_at_add_flag)

lemma keeps_remove_zoom: "finv fl \<Longrightarrow> keeps fl (remove_flags ''zoom'' None fl)"
  using ft.count_replace [of fl "''zoom''" "[]"] by (simp add: keeps_def remove_flags_finv)

lemma vt_upd_flags [simp]: "flags (vt_upd f g w) = flags w"
  by (simp add: vt_upd_def)

lemma get_cscale_flags [simp]: "flags (snd (get_cscale w)) = flags w"
  by (simp add: get_cscale_def Let_def split_beta split: option.splits)

lemma update_picture_flags [simp]: "flags (fst (update_picture f w)) = flags w"
proof -
  have g: "session_get k d v = (x, v') \<Longrightarrow> flags v' = flags v" for k d v x v'
    by (metis session_get_client(6) snd_conv)
  have c: "get_cscale v = (x, v') \<Longrightarrow> flags v' = flags v" for v x v'
    using get_cscale_flags [of v] by simp
  show ?thesis
    by (auto simp: update_picture_def Let_def split: option.splits prod.splits dest!: g c)
qed

lemma redraw_fork_keeps: "finv (flags w) \<Longrightarrow> keeps (flags w) (flags (fst (redraw_fork sc cv e w)))"
proof -
  assume f: "finv (flags w)"
  obtain c0 c1 fn m0 m1 where cv: "cv = (c0, c1)" and e: "e = (fn, m0, m1)" by (metis prod.exhaust)
  define w1 where "w1 = (if js_lt m0 c0 \<and> js_lt c0 m1 then w\<lparr>flags := add_flag ''zoom'' fn (num_to_string 10 c0) (flags w)\<rparr> else w)"
  define w2 where "w2 = (if js_lt m0 c1 \<and> js_lt c1 m1 then w1\<lparr>flags := add_flag ''zoom'' fn (num_to_string 10 c1) (flags w1)\<rparr> else w1)"
  have k1: "keeps (flags w) (flags w1)" using f by (simp add: w1_def keeps_add_zoom keeps_refl)
  then have "finv (flags w1)" by (simp add: keeps_def)
  then have "keeps (flags w1) (flags w2)" by (simp add: w2_def keeps_add_zoom keeps_refl)
  with k1 have k2: "keeps (flags w) (flags w2)" by (rule keeps_trans)
  define w3 where "w3 = (if map_of (vtimelines w2) fn = None then w2\<lparr>vtimelines := vtimelines w2 @ [(fn, vt_new)]\<rparr> else w2)"
  have "\<exists>g. redraw_fork sc cv e w = and_then (update_picture fn w3) g \<and> (\<forall>v. flags (fst (g v)) = flags v)"
    by (rule exI, rule conjI, simp only: redraw_fork_def cv e prod.case Let_def w1_def w2_def w3_def, simp)
  then obtain g where g: "redraw_fork sc cv e w = and_then (update_picture fn w3) g" "\<And>v. flags (fst (g v)) = flags v"
    by blast
  have "flags w3 = flags w2" by (simp add: w3_def)
  moreover obtain v r where u: "update_picture fn w3 = (v, r)" by fastforce
  moreover have "flags v = flags w3" using update_picture_flags [of fn w3] unfolding u by simp
  ultimately have "flags (fst (redraw_fork sc cv e w)) = flags w2"
    using g by (cases r) auto
  with k2 show ?thesis by simp
qed

lemma redraw_forks_keeps: "finv (flags w) \<Longrightarrow> keeps (flags w) (flags (fst (redraw_forks sc cv es w)))"
proof (induction es arbitrary: w)
  case (Cons e es)
  obtain w' r where r: "redraw_fork sc cv e w = (w', r)" by (cases "redraw_fork sc cv e w")
  have k: "keeps (flags w) (flags w')" using redraw_fork_keeps [OF Cons.prems, of sc cv e] r by simp
  then have "keeps (flags w') (flags (fst (redraw_forks sc cv es w')))"
    by (intro Cons.IH) (simp add: keeps_def)
  with k r show ?case by (cases r) (auto intro: keeps_trans)
qed (simp add: keeps_refl)

lemma session_get_flags: "session_get k d w = (x, w') \<Longrightarrow> flags w' = flags w"
  using world_more_frame(6) [OF session_get_world [of k d w]] by simp

lemma redraw_vtimelines_keeps:
  assumes "finv (flags w)"
  shows "keeps (flags w) (flags (fst (redraw_vtimelines sc w)))"
proof -
  obtain cv w1 where 1: "session_get ''cview'' False w = (cv, w1)" by fastforce
  obtain mc w2 where 2: "session_get ''max_clnum'' False w1 = (mc, w2)" by fastforce
  have f: "flags w1 = flags w" "flags w2 = flags w" using 1 2 session_get_flags by metis+
  have "keeps (flags w) (flags (fst (redraw_forks sc cview fs (w2\<lparr>vtimelines := x, flags := remove_flags ''zoom'' None (flags w2)\<rparr>))))" for cview fs x
    using keeps_remove_zoom [OF assms] redraw_forks_keeps [of "w2\<lparr>vtimelines := x, flags := remove_flags ''zoom'' None (flags w2)\<rparr>"]
    by (auto simp: f keeps_def)
  then show ?thesis
    using f keeps_refl [OF assms] by (auto simp: redraw_vtimelines_def 1 2 Let_def split: option.splits)
qed

lemma count_sort_cols: "count_list (sort_cols ts) t = count_list ts t"
  by (simp add: sort_cols_def) (metis count_mset mset_sort)

lemma types_at_sort_flags: "types_at (map (sort_flag mc cv cs) fl) k =
   (case map_of fl k of None \<Rightarrow> [] | Some ts \<Rightarrow> snd (sort_flag mc cv cs (k, ts)))"
  by (induction fl) (auto simp: types_at_def sort_flag_def)

lemma keeps_sort_flags: "finv fl \<Longrightarrow> keeps fl (map (sort_flag mc cv cs) fl)"
proof -
  assume f: "finv fl"
  have ne: "sort_cols ts \<noteq> []" if "ts \<noteq> []" for ts
    using that by (simp add: sort_cols_def) (metis mset_sort mset_zero_iff)
  have "map fst (map (sort_flag mc cv cs) fl) = map fst fl" by (simp add: sort_flag_def)
  moreover have "ts' \<noteq> []" if "sort_flag mc cv cs (k, ts) = (k', ts')" "ts \<noteq> []" for k ts k' ts'
    using that ne by (auto simp: sort_flag_def split: if_splits)
  ultimately have "finv (map (sort_flag mc cv cs) fl)"
    using f by (fastforce simp: finv_def simp del: map_map)
  moreover have "count_list (types_at (map (sort_flag mc cv cs) fl) k) t = count_list (types_at fl k) t" for k t
    by (simp add: types_at_sort_flags) (simp add: types_at_def sort_flag_def count_sort_cols split: option.splits)
  ultimately show ?thesis by (simp add: keeps_def)
qed

lemma redraw_flags_keeps:
  assumes "finv (flags w)"
  shows "keeps (flags w) (flags (fst (redraw_flags w)))"
proof -
  obtain cv w1 where 1: "session_get ''cview'' False w = (cv, w1)" by fastforce
  obtain mc w2 where 2: "session_get ''max_clnum'' False w1 = (mc, w2)" by fastforce
  obtain cs w3 where 3: "get_cscale w2 = (cs, w3)" by fastforce
  have f: "flags w1 = flags w" "flags w2 = flags w" "flags w3 = flags w"
    using 1 2 3 session_get_flags get_cscale_flags [of w2] by (metis snd_conv)+
  let ?w = "w3\<lparr>vtimelines := map (\<lambda>(k, v). (k, v\<lparr>vt_flags := []\<rparr>)) (vtimelines w3)\<rparr>"
  have k: "keeps (flags w) (flags (fst (redraw_vtimelines cscale ?w)))" for cscale
    using redraw_vtimelines_keeps [of ?w cscale] f assms by simp
  have s: "keeps (flags w) (map (sort_flag m c z) (flags v))"
    if "redraw_vtimelines cscale ?w = (v, r)" for v r m c z cscale
    using k [of cscale] that keeps_sort_flags [of "flags v"] by (auto simp: keeps_def)
  show ?thesis
    using f keeps_refl [OF assms] k s
    by (auto simp: redraw_flags_def 1 2 3 Let_def and_then_def split: option.splits prod.splits)
       (metis fst_conv)+
qed

text \<open>Drawing leaves the engine alone.\<close>

lemma engine_vt_upd [simp]: "engine (vt_upd f g w) = engine w"
  by (simp add: vt_upd_def)

lemma engine_get_cscale [simp]: "engine (snd (get_cscale w)) = engine w"
  by (simp add: get_cscale_def split_beta split: option.splits)

lemma engine_update_picture [simp]: "engine (fst (update_picture f w)) = engine w"
  by (simp add: update_picture_def split_beta Let_def split: option.splits)

lemma engine_redraw_fork [simp]: "engine (fst (redraw_fork sc cv e w)) = engine w"
  by (simp add: redraw_fork_def split_beta Let_def engine_and_then)

lemma engine_redraw_forks [simp]: "engine (fst (redraw_forks sc cv es w)) = engine w"
  by (induction es arbitrary: w) (simp_all add: engine_and_then)

lemma engine_redraw_flags [simp]: "engine (fst (redraw_flags w)) = engine w"
  by (simp add: redraw_flags_def redraw_vtimelines_def split_beta Let_def engine_and_then split: option.splits)

section \<open>Sorting change numbers\<close>

lemma js_sort_ints:
  assumes "\<forall>x \<in> set xs. \<bar>x\<bar> < 2 ^ 52"
  shows "js_sort js_sub (map ji xs) = map ji (sort xs)"
proof -
  have ins: "js_insort js_sub (ji x) (map ji ys) = map ji (insort x ys)"
    if "\<bar>x\<bar> < 2 ^ 52" "\<forall>y \<in> set ys. \<bar>y\<bar> < 2 ^ 52" for x ys
    using that by (induction ys) (auto simp: safe_def)
  show ?thesis
    using assms
  proof (induction xs)
    case (Cons x xs)
    then have "\<forall>y \<in> set (sort xs). \<bar>y\<bar> < 2 ^ 52" by simp
    with Cons ins show ?case by (simp add: js_sort_def)
  qed (simp add: js_sort_def)
qed

lemma sort_around:
  fixes g :: "'a::linorder"
  assumes "g \<notin> set xs"
  shows "sort (g # xs) = sort (filter (\<lambda>x. x < g) xs) @ g # sort (filter (\<lambda>x. g < x) xs)"
proof -
  have "mset xs = mset (filter (\<lambda>x. x < g) xs) + mset (filter (\<lambda>x. g < x) xs)"
    using assms by (induction xs) (auto simp: neq_iff)
  then have "mset (sort (filter (\<lambda>x. x < g) xs) @ g # sort (filter (\<lambda>x. g < x) xs)) = mset (g # xs)"
    by simp
  moreover have "sorted (sort (filter (\<lambda>x. x < g) xs) @ g # sort (filter (\<lambda>x. g < x) xs))"
    by (auto simp: sorted_append)
  ultimately show ?thesis by (rule properties_for_sort)
qed

lemma index_of_middle: "g \<notin> set as \<Longrightarrow> index_of g (as @ g # bs) = Some (length as)"
  by (induction as) auto

lemma hd_sort: "xs \<noteq> [] \<Longrightarrow> hd (sort xs) = Min (set xs)"
  for xs :: "'a::linorder list"
proof -
  assume "xs \<noteq> []"
  then obtain y ys where s: "sort xs = y # ys" by (metis length_0_conv length_sort neq_Nil_conv)
  have "sorted (y # ys)" "set xs = set (y # ys)" using sorted_sort [of xs] set_sort [of "\<lambda>x. x" xs] by (simp_all add: s)
  then show ?thesis by (auto simp: s intro!: Min_eqI [symmetric])
qed

lemma last_sort: "xs \<noteq> [] \<Longrightarrow> last (sort xs) = Max (set xs)"
  for xs :: "'a::linorder list"
proof -
  assume "xs \<noteq> []"
  then obtain y ys where s: "sort xs = ys @ [y]" by (metis length_0_conv length_sort rev_exhaust)
  have "sorted (ys @ [y])" "set xs = set (ys @ [y])" using sorted_sort [of xs] set_sort [of "\<lambda>x. x" xs] by (simp_all add: s)
  then show ?thesis by (auto simp: s sorted_append intro!: Max_eqI [symmetric])
qed

section \<open>Going to a flag\<close>

text \<open>The integer change numbers that \<open>go_to_flag\<close> considers, besides the current one.\<close>

definition flagged :: "bool \<Rightarrow> jsnum \<Rightarrow> (string \<times> string list) list \<Rightarrow> int set" where
  "flagged data f fl = {c. \<exists>k ts. (k, ts) \<in> set fl \<and> flag_matches data ts \<and> js_eq (flag_fork k) f \<and> flag_clnum k = ji c}"

lemma flagged_Cons: "flagged data f ((k, ts) # fl) =
    (if flag_matches data ts \<and> js_eq (flag_fork k) f then {c. flag_clnum k = ji c} else {}) \<union> flagged data f fl"
  by (auto simp: flagged_def)

text \<open>Every key of the table is a pair of printed integers of moderate size.\<close>

definition int_keys :: "(string \<times> string list) list \<Rightarrow> bool" where
  "int_keys fl \<longleftrightarrow> (\<forall>(k, ts) \<in> set fl. \<exists>f c. k = flag_key (int_to_string 10 f) (int_to_string 10 c)
     \<and> \<bar>f\<bar> < 2 ^ 52 \<and> \<bar>c\<bar> < 2 ^ 52)"

lemma flag_key_parse:
  assumes "safe f" and "safe c"
  shows "flag_fork (flag_key (int_to_string 10 f) (int_to_string 10 c)) = ji f"
    and "flag_clnum (flag_key (int_to_string 10 f) (int_to_string 10 c)) = ji c"
  using assms by (simp_all add: flag_fork_def flag_clnum_def flag_key_def fdec_def parse_int_int_to_string)

lemma flag_targets_ints:
  assumes "int_keys fl"
  shows "\<exists>xs. flag_targets data (Some (VNum f)) (Some (VNum (ji g))) fl = map ji xs
     \<and> set xs = flagged data f fl - {g} \<and> (\<forall>x \<in> set xs. \<bar>x\<bar> < 2 ^ 52)"
  using assms
proof (induction fl)
  case Nil
  then show ?case by (simp add: flag_targets_def flagged_def)
next
  case (Cons e fl)
  obtain k ts where e: "e = (k, ts)" by (cases e)
  have "int_keys fl" using Cons.prems by (simp add: int_keys_def)
  then obtain xs where xs: "flag_targets data (Some (VNum f)) (Some (VNum (ji g))) fl = map ji xs"
    "set xs = flagged data f fl - {g}" "\<forall>x \<in> set xs. \<bar>x\<bar> < 2 ^ 52" using Cons.IH by blast
  obtain c where c: "flag_clnum k = ji c" "\<bar>c\<bar> < 2 ^ 52"
    using Cons.prems flag_key_parse by (auto simp: int_keys_def e safe_def)
  let ?p = "c \<noteq> g \<and> flag_matches data ts \<and> js_eq (flag_fork k) f"
  have "flagged data f (e # fl) - {g} = (if ?p then insert c else id) (flagged data f fl - {g})"
    by (auto simp: flagged_Cons e c)
  moreover have "flag_targets data (Some (VNum f)) (Some (VNum (ji g))) (e # fl)
      = (if ?p then [ji c] else []) @ map ji xs"
    using xs(1) c by (simp add: flag_targets_def e)
  ultimately show ?case
    using xs c by (intro exI [of _ "(if ?p then [c] else []) @ xs"]) auto
qed

lemma go_to_flag_session:
  assumes idle: "mtrack w = None" and keys: "int_keys (flags w)"
    and cl: "msession w ''clnum'' = Some (VNum (ji g))" "\<bar>g\<bar> < 2 ^ 52"
    and fn: "msession w ''forknum'' = Some (VNum f)"
    and S: "S = flagged data f (flags w)"
  shows "msession (go_to_flag next data w) = (msession w)(''clnum'' \<mapsto> VNum (ji
    (if next then (if {c \<in> S. g < c} = {} then g else Min {c \<in> S. g < c})
     else (if {c \<in> S. c < g} = {} then g else Max {c \<in> S. c < g}))))"
proof -
  obtain xs where xs: "flag_targets data (Some (VNum f)) (Some (VNum (ji g))) (flags w) = map ji xs"
    "set xs = S - {g}" "\<forall>x \<in> set xs. \<bar>x\<bar> < 2 ^ 52"
    using flag_targets_ints [OF keys, of data f g] unfolding S by blast
  define lo hi where "lo = sort (filter (\<lambda>x. x < g) xs)" and "hi = sort (filter (\<lambda>x. g < x) xs)"
  have sets: "{c \<in> S. g < c} = set hi" "{c \<in> S. c < g} = set lo"
    using xs(2) by (auto simp: lo_def hi_def)
  have nl: "ji g \<notin> set (map ji lo)" by (auto simp: lo_def)
  have cls: "js_sort js_sub (ji g # map ji xs) = map ji lo @ ji g # map ji hi"
  proof -
    have "\<forall>x \<in> set (g # xs). \<bar>x\<bar> < 2 ^ 52" and "g \<notin> set xs" using xs(2,3) cl(2) by auto
    then show ?thesis using js_sort_ints [of "g # xs"] sort_around [of g xs] by (simp add: lo_def hi_def)
  qed
  have idx: "index_of (ji g) (map ji lo @ ji g # map ji hi) = Some (length lo)"
    using index_of_middle [OF nl, of "map ji hi"] by simp
  have h: "hi \<noteq> [] \<Longrightarrow> hi ! 0 = Min (set hi)" and l: "lo \<noteq> [] \<Longrightarrow> lo ! (length lo - 1) = Max (set lo)"
    using hd_sort [of hi] last_sort [of lo] by (simp_all add: hi_def lo_def hd_conv_nth last_conv_nth sorted_sort_id)
  show ?thesis
    unfolding sets using idle cl(1) fn xs(1) cls idx h l
    by (cases hi; cases lo rule: rev_cases)
       (auto simp: go_to_flag_def Let_def nth_append fun_upd_idem)
qed

section \<open>The closest change\<close>

lemma closest_loop_ints:
  assumes "\<forall>x \<in> set cs. \<bar>x\<bar> < 2 ^ 52" and "\<bar>g\<bar> < 2 ^ 52" and "\<bar>b\<bar> < 2 ^ 52"
  shows "\<exists>c \<in> insert b (set cs). closest_loop (ji g) (map ji cs) (Some (ji b, ji \<bar>b - g\<bar>)) = Some (ji c)
    \<and> (\<forall>d \<in> insert b (set cs). \<bar>c - g\<bar> \<le> \<bar>d - g\<bar>)"
  using assms
proof (induction cs arbitrary: b)
  case (Cons x cs)
  define b' where "b' = (if \<bar>x - g\<bar> < \<bar>b - g\<bar> then x else b)"
  have "\<bar>b'\<bar> < 2 ^ 52" using Cons.prems by (simp add: b'_def)
  then obtain c where c: "c \<in> insert b' (set cs)"
    "closest_loop (ji g) (map ji cs) (Some (ji b', ji \<bar>b' - g\<bar>)) = Some (ji c)"
    "\<forall>d \<in> insert b' (set cs). \<bar>c - g\<bar> \<le> \<bar>d - g\<bar>"
    using Cons.IH [of b'] Cons.prems by auto
  have "\<bar>x\<bar> < 2 ^ 52" using Cons.prems by simp
  with Cons.prems(2) have "safe (x - g)" by (simp add: safe_def abs_less_iff)
  then have "closest_loop (ji g) (map ji (x # cs)) (Some (ji b, ji \<bar>b - g\<bar>))
      = closest_loop (ji g) (map ji cs) (Some (ji b', ji \<bar>b' - g\<bar>))"
    by (simp add: b'_def)
  with c show ?case by (intro bexI [of _ c]) (auto simp: b'_def split: if_splits)
qed simp

section \<open>Scrolling the zoom window\<close>

text \<open>The distance scrolled is a non-negative integer when the box is taller than its margin.\<close>

lemma scroll_distance:
  assumes "0 \<le> d" and "d < 2 ^ 32" and "100 < h" and "h < 2 ^ 32"
  shows "\<exists>k. js_round (js_mul (js_div (ji d) (ji (h - 100))) (ji 50)) = ji k \<and> 0 \<le> k \<and> k < 2 ^ 48"
proof -
  have "(of_int d :: rat) / of_int (h - 100) \<le> of_int d / 1"
    using assms by (intro divide_left_mono) (auto simp flip: of_int_diff)
  also have "\<dots> < of_int (2 ^ 32)" using assms(2) by (simp only: of_int_less_iff div_by_1)
  finally have q: "(of_int d :: rat) / of_int (h - 100) < 2 ^ 32" by simp
  have q0: "0 \<le> (of_int d :: rat) / of_int (h - 100)" using assms by simp
  obtain s where s: "jsfin (of_int d / of_int (h - 100)) = Fin s" "0 \<le> s"
    "s \<le> 2 * (of_int d / of_int (h - 100)) + 1"
    using jsfin_nonneg [OF q0] q by auto
  have s2: "s < 2 ^ 34" using s(3) q by simp
  obtain m where m: "jsfin (s * 50) = Fin m" "0 \<le> m" "m \<le> 2 * (s * 50) + 1"
    using jsfin_nonneg [of "s * 50"] s(2) s2 by auto
  have "m + 1 / 2 < of_int (2 ^ 48)" using m(3) s2 by simp
  then have "\<lfloor>m + 1 / 2\<rfloor> < 2 ^ 48" by (simp only: floor_less_iff)
  moreover have "0 \<le> \<lfloor>m + 1 / 2\<rfloor>" using m(2) by simp
  moreover have "js_div (ji d) (ji (h - 100)) = Fin s" using assms s(1) by (simp add: ji_def)
  then have "js_round (js_mul (js_div (ji d) (ji (h - 100))) (ji 50)) = ji \<lfloor>m + 1 / 2\<rfloor>"
    using m(1) by (simp add: ji_def)
  ultimately show ?thesis by blast
qed

lemma mousewheel_view:
  assumes idle: "mtrack w = None"
    and mx: "msession w ''max_clnum'' = Some (VForks fs)" "maxcl_loop fs None = Some (ji m)"
    and cv: "msession w ''cview'' = Some (VPair (ji a) (ji b))" "0 \<le> a" "a \<le> b" "b \<le> m" "m < 2 ^ 32"
    and box: "box_height w = Some (ji h)" "100 < h" "h < 2 ^ 32"
  shows "\<exists>a' b'. msession (vtimelinebox_mousewheel d w) = (msession w)(''cview'' \<mapsto> VPair (ji a') (ji b'))
    \<and> 0 \<le> a' \<and> b' \<le> m \<and> b' - a' = b - a
    \<and> (if js_lt (ji 0) d then a' \<le> a else a \<le> a')"
proof -
  obtain k where k: "js_round (js_mul (js_div (ji (b - a)) (ji (h - 100))) (ji 50)) = ji k" "0 \<le> k" "k < 2 ^ 48"
    using scroll_distance [of "b - a" h] cv box by auto
  have cs: "get_cscale w = (Some (js_div (ji (b - a)) (ji (h - 100))), w)"
    using idle cv box by (simp add: get_cscale_def safe_def)
  show ?thesis
  proof (cases "js_lt (ji 0) d")
    case True
    define k' where "k' = (if a - k < 0 then a else k)"
    have "msession (vtimelinebox_mousewheel d w) = (msession w)(''cview'' \<mapsto> VPair (ji (a - k')) (ji (b - k')))"
      using idle mx cv k cs True
      by (simp add: vtimelinebox_mousewheel_def abs_maxclnum_idle Let_def k'_def safe_def)
    then show ?thesis using True k cv by (intro exI [of _ "a - k'"] exI [of _ "b - k'"]) (auto simp: k'_def)
  next
    case False
    define k' where "k' = (if m < b + k then m - b else k)"
    have "msession (vtimelinebox_mousewheel d w) = (msession w)(''cview'' \<mapsto> VPair (ji (a + k')) (ji (b + k')))"
      using idle mx cv k cs False
      by (simp add: vtimelinebox_mousewheel_def abs_maxclnum_idle Let_def k'_def safe_def)
    then show ?thesis using False k cv by (intro exI [of _ "a + k'"] exI [of _ "b + k'"]) (auto simp: k'_def)
  qed
qed

section \<open>Dragging and clicking on the timeline\<close>

text \<open>The change a mouse position stands for: within the view, and off by the rounding to an integer and
  less than a thousandth more.\<close>

lemma cursor_change:
  assumes a: "0 \<le> a" "a \<le> b" "b < 2 ^ 32" and y: "0 \<le> y" "y \<le> h" "0 < h" "h < 2 ^ 32"
  obtains c where "js_round (js_add (js_mul (ji y) (js_div (ji (b - a)) (ji h))) (ji a)) = ji c"
    and "a \<le> c" and "c \<le> b" and "\<bar>of_int c - (of_int a + of_int y * of_int (b - a) / of_int h)\<bar> \<le> (501 / 1000 :: rat)"
proof -
  define R H :: rat where "R = of_int (b - a)" and "H = of_int h"
  define q where "q = R / H"
  define Y :: rat where "Y = of_int y"
  define A :: rat where "A = of_int a"
  define P where "P = Y * q"
  have "(of_int 0 :: rat) \<le> of_int (b - a)" "(of_int (b - a) :: rat) < of_int (2 ^ 32)" "(of_int 1 :: rat) \<le> of_int h"
    "(of_int 0 :: rat) \<le> of_int y" "(of_int y :: rat) \<le> of_int h" "(of_int y :: rat) < of_int (2 ^ 32)"
    "(of_int 0 :: rat) \<le> of_int a" "(of_int a :: rat) < of_int (2 ^ 32)"
    unfolding of_int_le_iff of_int_less_iff using a y by simp_all
  then have R: "0 \<le> R" "R < 2 ^ 32" and H: "1 \<le> H" and Y: "0 \<le> Y" "Y \<le> H" "Y < 2 ^ 32" and A: "0 \<le> A" "A < 2 ^ 32"
    unfolding R_def H_def Y_def A_def by simp_all
  have q: "0 \<le> q" "q \<le> R" using R H by (simp_all add: q_def divide_le_eq mult_le_cancel_left1)
  have "Y * R \<le> H * R" using R Y by (intro mult_right_mono)
  then have "P \<le> R" using H by (simp add: P_def q_def divide_le_eq mult.commute)
  moreover have "0 \<le> P" using Y q unfolding P_def by simp
  ultimately have P: "0 \<le> P" "P \<le> R" by simp_all
  obtain s where s: "jsfin q = Fin s" "0 \<le> s" "\<bar>s - q\<bar> \<le> q / 2 ^ 53 + 1 / 2 ^ 100"
    using jsfin_nonneg_near [of q] q R by auto
  have "Y * \<bar>s - q\<bar> \<le> Y * (q / 2 ^ 53 + 1 / 2 ^ 100)" using Y s(3) by (intro mult_left_mono)
  then have Q: "\<bar>Y * s - P\<bar> \<le> P / 2 ^ 53 + Y / 2 ^ 100" using Y by (simp add: P_def distrib_left abs_mult flip: right_diff_distrib)
  have Q0: "0 \<le> Y * s" "Y * s < 2 ^ 34" using Q Y s(2) P R by (simp_all add: abs_le_iff)
  obtain p where p: "jsfin (Y * s) = Fin p" "0 \<le> p" "\<bar>p - Y * s\<bar> \<le> Y * s / 2 ^ 53 + 1 / 2 ^ 100"
    using jsfin_nonneg_near [of "Y * s"] Q0 by auto
  have p0: "0 \<le> p + A" "p + A < 2 ^ 36" using p Q0 A by (simp_all add: abs_le_iff)
  obtain v where v: "jsfin (p + A) = Fin v" "0 \<le> v" "\<bar>v - (p + A)\<bar> \<le> (p + A) / 2 ^ 53 + 1 / 2 ^ 100"
    using jsfin_nonneg_near [of "p + A"] p0 by auto
  have ulp: "x < 2 ^ 36 \<Longrightarrow> x / 2 ^ 53 + 1 / 2 ^ 100 \<le> 1 / 16384" for x :: rat by simp
  have "(p + A) / 2 ^ 53 + 1 / 2 ^ 100 \<le> 1 / 16384" "Y * s / 2 ^ 53 + 1 / 2 ^ 100 \<le> 1 / 16384"
    using p0(2) Q0(2) by (intro ulp; simp)+
  moreover have "P / 2 ^ 53 + Y / 2 ^ 100 \<le> 1 / 16384" using Y(3) P(2) R(2) by simp
  ultimately have "\<bar>v - (p + A)\<bar> \<le> 1 / 16384" "\<bar>p - Y * s\<bar> \<le> 1 / 16384" "\<bar>Y * s - P\<bar> \<le> 1 / 16384"
    using v(3) p(3) Q by (blast intro: order_trans)+
  then have e: "v \<le> A + P + 1 / 4096" "A + P \<le> v + 1 / 4096" by linarith+
  have js: "js_round (js_add (js_mul (ji y) (js_div (ji (b - a)) (ji h))) (ji a)) = ji \<lfloor>v + 1 / 2\<rfloor>"
    using s(1) p(1) v(1) y(3) by (simp add: ji_def q_def Y_def A_def R_def H_def)
  have "a \<le> \<lfloor>v + 1 / 2\<rfloor>" using e P(1) by (simp add: le_floor_iff A_def)
  moreover have "\<lfloor>v + 1 / 2\<rfloor> \<le> b" using e P(2) by (simp add: floor_le_iff A_def R_def)
  moreover have "\<bar>of_int \<lfloor>v + 1 / 2\<rfloor> - (A + P)\<bar> \<le> 501 / 1000" using e by linarith
  moreover have "A + P = of_int a + of_int y * of_int (b - a) / of_int h" by (simp add: A_def P_def Y_def q_def R_def H_def)
  ultimately show thesis using that [OF js] by metis
qed

text \<open>The change \<open>c\<close> is the one at height \<open>y\<close> of a box of \<open>h\<close> pixels that shows \<open>a\<close> to \<open>b\<close>.\<close>

definition at_cursor :: "int \<Rightarrow> int \<Rightarrow> int \<Rightarrow> int \<Rightarrow> int \<Rightarrow> bool" where
  "at_cursor a b h y c \<longleftrightarrow> a \<le> c \<and> c \<le> b
     \<and> \<bar>of_int c - (of_int a + of_int y * of_int (b - a) / of_int (h - 100))\<bar> \<le> (501 / 1000 :: rat)"

definition timeline_target :: "world \<Rightarrow> string \<Rightarrow> bool" where
  "timeline_target w t \<longleftrightarrow> t = ''vtimelinebox'' \<or> t \<in> (\<lambda>(k, v). ''vtimeline'' @ k) ` set (vtimelines w)"

lemma get_clnum_at:
  assumes idle: "mtrack w = None"
    and mx: "msession w ''max_clnum'' = Some (VForks fs)" "maxcl_loop fs None = Some (ji m)"
    and cv: "msession w ''cview'' = Some (VPair (ji a) (ji b))" "0 \<le> a" "a \<le> b" "b \<le> m" "m < 2 ^ 32"
    and box: "box_height w = Some (ji h)" "100 < h" "h < 2 ^ 32"
    and t: "timeline_target w t" and y: "0 \<le> y" "y \<le> h - 100"
  obtains c where "get_clnum t (ji y) w = (Some (ji c), w)" and "at_cursor a b h y c"
proof -
  obtain c where c: "js_round (js_add (js_mul (ji y) (js_div (ji (b - a)) (ji (h - 100)))) (ji a)) = ji c"
    "a \<le> c" "c \<le> b" "\<bar>of_int c - (of_int a + of_int y * of_int (b - a) / of_int (h - 100))\<bar> \<le> (501 / 1000 :: rat)"
    using cursor_change [of a b y "h - 100"] cv y box by auto
  have cs: "get_cscale w = (Some (js_div (ji (b - a)) (ji (h - 100))), w)"
    using idle cv box by (simp add: get_cscale_def safe_def)
  have "get_clnum t (ji y) w = (Some (ji c), w)"
    using idle mx cv c(1,3) cs t by (auto simp: get_clnum_def timeline_target_def abs_maxclnum_idle Let_def)
  with c that show thesis by (simp add: at_cursor_def)
qed

lemma drag_timeline:
  assumes idle: "mtrack w = None"
    and mx: "msession w ''max_clnum'' = Some (VForks fs)" "maxcl_loop fs None = Some (ji m)"
    and cv: "msession w ''cview'' = Some (VPair (ji a) (ji b))" "0 \<le> a" "a \<le> b" "b \<le> m" "m < 2 ^ 32"
    and box: "box_height w = Some (ji h)" "100 < h" "h < 2 ^ 32"
    and t: "timeline_target w t" "timeline_target w t'"
    and y: "0 \<le> y" "y \<le> h - 100" "0 \<le> y'" "y' \<le> h - 100"
  shows "\<exists>c c'. at_cursor a b h y c \<and> at_cursor a b h y' c'
    \<and> msession (vtimelinebox_mouseup t' 0 (ji y') (vtimelinebox_mousedown t 0 (ji y) w)) =
      (if c \<noteq> c' then (msession w)(''cview'' \<mapsto> VPair (ji (min c c')) (ji (max c c')))
       else if js_eq (get_forknum t') (ji (- 1)) then msession w
       else (msession w)(''clnum'' \<mapsto> VNum (ji c), ''forknum'' \<mapsto> VNum (get_forknum t')))"
proof -
  obtain c where c: "get_clnum t (ji y) w = (Some (ji c), w)" "at_cursor a b h y c"
    using get_clnum_at [OF idle mx cv box t(1) y(1,2)] .
  define w1 where "w1 = w\<lparr>drag_down := ji c, drag_fork := get_forknum t\<rparr>"
  have w1: "vtimelinebox_mousedown t 0 (ji y) w = w1" "msession w1 = msession w" "mtrack w1 = None"
      "drag_down w1 = ji c" "box_height w1 = box_height w" "timeline_target w1 t'"
    using c(1) idle t(2) by (simp_all add: vtimelinebox_mousedown_def w1_def timeline_target_def)
  obtain c' where c': "get_clnum t' (ji y') w1 = (Some (ji c'), w1)" "at_cursor a b h y' c'"
    using get_clnum_at [of w1 fs m a b h t' y'] assms w1 by metis
  have "c \<noteq> - 1" using c(2) cv(2) by (simp add: at_cursor_def)
  then have "msession (vtimelinebox_mouseup t' 0 (ji y') w1) =
      (if c \<noteq> c' then (msession w)(''cview'' \<mapsto> VPair (ji (min c c')) (ji (max c c')))
       else if js_eq (get_forknum t') (ji (- 1)) then msession w
       else (msession w)(''clnum'' \<mapsto> VNum (ji c), ''forknum'' \<mapsto> VNum (get_forknum t')))"
    using c'(1) w1 by (auto simp: vtimelinebox_mouseup_def Let_def min_def max_def)
  with c(2) c'(2) show ?thesis unfolding w1(1) by blast
qed

section \<open>The answer to getchanges\<close>

lemma change_type_zoom: "change_type mtype \<noteq> ''zoom''"
  by (simp add: change_type_def change_types_def)

lemma flags_select_closest [simp]: "flags (select_closest mtype cls w) = flags w"
  by (simp add: select_closest_def split_beta Let_def split: option.splits)

text \<open>Which points a message puts flags on.\<close>

definition message_keys :: "(string \<times> jsnum list) list \<Rightarrow> string list" where
  "message_keys cls = concat (map (\<lambda>(f, cs). map (\<lambda>c. flag_key f (num_to_string 10 c)) cs) cls)"

lemma on_changes_flags:
  assumes "finv (flags w)"
  shows "finv (flags (fst (on_changes mtype cls w)))
    \<and> (u \<noteq> ''zoom'' \<longrightarrow> count_list (types_at (flags (fst (on_changes mtype cls w))) q) u
        = (if u = change_type mtype then count_list (message_keys cls) q else count_list (types_at (flags w) q) u))"
proof -
  let ?t = "change_type mtype"
  let ?fl = "add_changes ?t cls (remove_flags ?t None (flags w))"
  let ?v = "select_closest mtype cls w"
  have v: "on_changes mtype cls w = redraw_flags (?v\<lparr>flags := ?fl\<rparr>)" by (simp add: on_changes_def Let_def)
  have fl: "?fl = fold (put_flag ?t) (message_keys cls) (remove_flags ?t None (flags w))"
    by (simp add: add_changes_put message_keys_def)
  have "finv ?fl" unfolding fl using assms by (intro ft.ok_fold ft.ok_remove)
  then have "keeps ?fl (flags (fst (on_changes mtype cls w)))"
    unfolding v using redraw_flags_keeps [of "?v\<lparr>flags := ?fl\<rparr>"] by simp
  moreover have "count_list (types_at ?fl q) u = (if u = ?t then count_list (message_keys cls) q else count_list (types_at (flags w) q) u)"
    unfolding fl using assms by (rule ft.count_replace)
  ultimately show ?thesis by (simp add: keeps_def)
qed

lemma autorun_change_flags:
  assumes "finv (flags w)"
    and k: "k = flag_key (elem_key (msession w ''forknum'')) (elem_key (msession w ''clnum''))"
  shows "finv (flags (fst (autorun_change w)))
    \<and> (u \<noteq> ''zoom'' \<longrightarrow> count_list (types_at (flags (fst (autorun_change w))) q) u
        = (if u = ''change'' then (if q = k then 1 else 0) else count_list (types_at (flags w) q) u))"
proof -
  let ?fl = "fold (put_flag ''change'') [k] (remove_flags ''change'' None (flags w))"
  let ?v = "snd (session_get ''clnum'' False (snd (session_get ''forknum'' False w)))"
  have a: "autorun_change w = redraw_flags (?v\<lparr>flags := ?fl\<rparr>)"
    by (simp add: autorun_change_def add_flag_put k split_beta)
  have "finv ?fl" using assms(1) by (intro ft.ok_fold ft.ok_remove)
  then have "keeps ?fl (flags (fst (autorun_change w)))"
    unfolding a using redraw_flags_keeps [of "?v\<lparr>flags := ?fl\<rparr>"] by simp
  moreover have "count_list (types_at ?fl q) u = (if u = ''change'' then count_list [k] q else count_list (types_at (flags w) q) u)"
    using assms(1) by (rule ft.count_replace)
  ultimately show ?thesis by (auto simp: keeps_def)
qed

lemma on_changes_closest:
  assumes idle: "mtrack w = None" and dirty: "msession w ''dirtyiaddr'' = Some (VBool True)"
    and cl: "msession w ''clnum'' = Some (VNum (ji g))" "\<bar>g\<bar> < 2 ^ 52"
    and cs: "map_of cls (prop_key (msession w ''forknum'')) = Some (map ji cs)" "cs \<noteq> []" "g \<notin> set cs"
      "\<forall>x \<in> set cs. \<bar>x\<bar> < 2 ^ 52"
  shows "\<exists>c \<in> set cs. (\<forall>d \<in> set cs. \<bar>c - g\<bar> \<le> \<bar>d - g\<bar>)
    \<and> msession (fst (on_changes ''I'' cls w)) = (msession w)(''clnum'' \<mapsto> VNum (ji c), ''dirtyiaddr'' \<mapsto> VBool False)"
proof -
  obtain b bs where b: "cs = b # bs" using cs(2) by (cases cs) auto
  have "safe (b - g)" using cs(4) cl(2) b by (auto simp: safe_def)
  then have "closest_loop (ji g) (map ji cs) None = closest_loop (ji g) (map ji bs) (Some (ji b, ji \<bar>b - g\<bar>))"
    by (simp add: b)
  then obtain c where c: "c \<in> set cs" "closest_loop (ji g) (map ji cs) None = Some (ji c)"
    "\<forall>d \<in> set cs. \<bar>c - g\<bar> \<le> \<bar>d - g\<bar>"
    using closest_loop_ints [of bs g b] cs(4) cl(2) b by auto
  have "ji g \<notin> set (map ji cs)" using cs(3) by auto
  moreover have "ji g \<noteq> NaN" by (simp add: ji_def)
  moreover have "c \<noteq> g" using c(1) cs(3) by auto
  ultimately have "msession (fst (on_changes ''I'' cls w)) = (msession w)(''clnum'' \<mapsto> VNum (ji c), ''dirtyiaddr'' \<mapsto> VBool False)"
    using idle dirty cl cs(1) c(2) engineD(3) [OF engine_redraw_flags]
    by (simp add: on_changes_def select_closest_def bool_of_def Let_def)
  with c show ?thesis by blast
qed

end
