(* ===== verification/Haddrline.thy ===== *)
theory Haddrline
  imports Vtimeline
begin

text \<open>
  \<open>web/client/haddrline.js\<close>: the line of memory pages. The pages of \<open>pmaps\<close> are sorted, small
  holes between them are filled, and the result is drawn as groups of adjacent pages, on which the
  current addresses are marked and which can be clicked.
\<close>

section \<open>Grouping the pages\<close>

abbreviation PAGE_SIZE :: nat where "PAGE_SIZE \<equiv> 0x1000"

text \<open>
  The two nested loops, over the address arithmetic they use. Addresses from the server are
  strings, and on strings that are not addresses the filling loop need not end; its result is then
  \<open>None\<close>.
\<close>

partial_function (option) holes_loop :: "('a \<Rightarrow> jsnum \<Rightarrow> 'a) \<Rightarrow> ('a \<Rightarrow> 'a \<Rightarrow> jsnum) \<Rightarrow> 'a \<Rightarrow> 'a \<Rightarrow> 'a list option" where
  "holes_loop add cmp j nxt =
     (if js_lt (cmp j nxt) (ji 0)
      then Option.bind (holes_loop add cmp (add j (ji (int PAGE_SIZE))) nxt) (\<lambda>hs. Some (j # hs))
      else Some [])"

fun chunk_loop :: "('a \<Rightarrow> jsnum \<Rightarrow> 'a) \<Rightarrow> ('a \<Rightarrow> 'a \<Rightarrow> jsnum) \<Rightarrow> 'a \<Rightarrow> 'a list \<Rightarrow> ('a list \<times> 'a list) option" where
  "chunk_loop add cmp caddr [] = Some ([], [])"
| "chunk_loop add cmp caddr (a # as) =
     (if js_lt (ji 0) (cmp (add caddr (ji (int PAGE_SIZE * 8))) a)
      then Option.bind (holes_loop add cmp (add caddr (ji (int PAGE_SIZE))) a) (\<lambda>hs.
           Option.bind (chunk_loop add cmp a as) (\<lambda>(c, r). Some (hs @ a # c, r)))
      else Some ([], a # as))"

lemma chunk_loop_rest: "chunk_loop add cmp caddr as = Some (c, r) \<Longrightarrow> length r \<le> length as"
  by (induction as arbitrary: caddr c r) (fastforce split: if_splits bind_splits prod.splits)+

function pchunks_loop :: "('a \<Rightarrow> jsnum \<Rightarrow> 'a) \<Rightarrow> ('a \<Rightarrow> 'a \<Rightarrow> jsnum) \<Rightarrow> 'a list \<Rightarrow> 'a list list option" where
  "pchunks_loop add cmp [] = Some []"
| "pchunks_loop add cmp (a # as) =
     (case chunk_loop add cmp a as of None \<Rightarrow> None
      | Some (c, r) \<Rightarrow> map_option ((#) (a # c)) (pchunks_loop add cmp r))"
  by pat_completeness auto
termination
  by (relation "measure (\<lambda>(add, cmp, as). length as)") (auto dest: chunk_loop_rest)

definition page_addrs :: "(string \<times> string) list \<Rightarrow> string list" where
  "page_addrs pmaps = js_sort bn_cmp (map fst (filter (\<lambda>(k, v). v \<noteq> ''romemory'') pmaps))"

section \<open>Drawing\<close>

definition pchunk_class :: "(string \<times> string) list \<Rightarrow> string \<Rightarrow> string" where
  "pchunk_class pmaps addr =
     ''pchunk pchunk'' @ (case map_of pmaps addr of Some k \<Rightarrow> k | None \<Rightarrow> ''undefined'')"

text \<open>
  Emptying the line removes the flags on it too. A filling loop that does not end pushes until
  memory is exhausted, which aborts the script.
\<close>

definition autorun_pmaps :: "world \<Rightarrow> world \<times> js_error option" where
  "autorun_pmaps w =
     (let (pm, w) = session_get ''pmaps'' False w in
      case pmaps_of pm of None \<Rightarrow> (w, None) | Some pmaps \<Rightarrow>
      (case pchunks_loop bn_add bn_cmp (page_addrs pmaps) of
         None \<Rightarrow> (w, Some (Thrown ''out of memory''))
       | Some pchunks \<Rightarrow>
           (w\<lparr>pchunk_dom := map (map (\<lambda>addr. (addr, pchunk_class pmaps addr))) pchunks, hflags := []\<rparr>, None)))"

definition draw_hflag :: "string \<Rightarrow> string \<Rightarrow> string \<Rightarrow> bool \<Rightarrow> world \<Rightarrow> world" where
  "draw_hflag addr name color alwaysontop w =
     (let w = w\<lparr>hflags := filter (\<lambda>h. hf_name h \<noteq> name) (hflags w)\<rparr>;
          page = bn_round addr 3
      in if page \<in> fst ` set (concat (pchunk_dom w))
         then (let off = js_sub (js_mul (js_div (js_mul (bn_mod addr 3) (ji 1)) (ji (int PAGE_SIZE))) (ji 15))
                                (js_div (ji 1) (ji 2))
               in w\<lparr>hflags := hflags w @ [\<lparr>hf_name = name, hf_chunk = page, hf_ontop = alwaysontop,
                      hf_color = color, hf_left = off\<rparr>]\<rparr>)
         else w)"

definition autorun_hflag_iaddr :: "world \<Rightarrow> world \<times> js_error option" where
  "autorun_hflag_iaddr w =
     (let (addr, w) = session_get ''iaddr'' False w in
      case str_of addr of None \<Rightarrow> (w, None)
      | Some a \<Rightarrow> (draw_hflag a ''iaddr'' ''#AA0000'' True w, None))"

definition autorun_hflag_daddr :: "world \<Rightarrow> world \<times> js_error option" where
  "autorun_hflag_daddr w =
     (let (addr, w) = session_get ''daddr'' False w in
      case str_of addr of None \<Rightarrow> (w, None)
      | Some a \<Rightarrow> (draw_hflag a ''daddr'' ''yellow'' True w, None))"

section \<open>Clicking\<close>

text \<open>An element under the mouse: whether it has class \<open>pchunk\<close>, its id, left edge and width.\<close>

record page_el =
  pe_pchunk :: bool
  pe_id :: string
  pe_left :: jsnum
  pe_width :: jsnum

fun get_addr :: "page_el list \<Rightarrow> jsnum \<Rightarrow> string option" where
  "get_addr [] pageX = None"
| "get_addr (t # tt) pageX =
     (if pe_pchunk t then
        let addr = (case js_split CHR ''_'' (pe_id t) of _ # a # _ \<Rightarrow> a | _ \<Rightarrow> ''undefined'');
            relX = js_div (js_mul (js_sub pageX (pe_left t)) (ji 1)) (pe_width t)
        in Some (bn_add addr (js_floor (js_mul relX (ji (int PAGE_SIZE)))))
      else get_addr tt pageX)"

definition haddrline_click :: "page_el list \<Rightarrow> jsnum \<Rightarrow> world \<Rightarrow> world \<times> js_error option" where
  "haddrline_click tt pageX w = (case get_addr tt pageX of None \<Rightarrow> (w, None)
     | Some addr \<Rightarrow> update_dview (Some addr) w)"

definition haddrline_contextmenu :: "page_el list \<Rightarrow> jsnum \<Rightarrow> world \<Rightarrow> world" where
  "haddrline_contextmenu tt pageX w = (case get_addr tt pageX of None \<Rightarrow> w
     | Some addr \<Rightarrow> session_set ''iaddr'' (Some (VStr addr)) (session_set ''dirtyiaddr'' (Some (VBool True)) w))"

text \<open>The wheel scrolls the line; the browser keeps \<open>scrollLeft\<close> between zero and its maximum.\<close>

definition haddrline_mousewheel :: "int \<Rightarrow> int \<Rightarrow> int \<Rightarrow> int" where
  "haddrline_mousewheel scroll_max wheelDelta scrollLeft = max 0 (min scroll_max (scrollLeft + wheelDelta))"

section \<open>The loops end and fill the holes\<close>

text \<open>The page numbers from one page up to, not including, another.\<close>

definition pages :: "nat \<Rightarrow> nat \<Rightarrow> nat list" where
  "pages lo hi = map (\<lambda>i. lo + i * PAGE_SIZE) [0..<(hi - lo) div PAGE_SIZE]"

lemma pages_step:
  assumes "PAGE_SIZE dvd lo" and "PAGE_SIZE dvd hi" and "lo < hi"
  shows "pages lo hi = lo # pages (lo + PAGE_SIZE) hi"
proof -
  obtain a b where ab: "lo = PAGE_SIZE * a" "hi = PAGE_SIZE * b" using assms(1,2) unfolding dvd_def by blast
  then have n: "(hi - lo) div PAGE_SIZE = Suc (b - Suc a)" "(hi - (lo + PAGE_SIZE)) div PAGE_SIZE = b - Suc a"
    using assms(3) by (auto simp: ab simp flip: diff_mult_distrib2)
  show ?thesis unfolding pages_def n upt_rec [of 0] map_Suc_upt [symmetric]
    by (simp add: map_Suc_upt [symmetric] del: map_Suc_upt upt_Suc)
qed

lemma pages_empty: "hi \<le> lo \<Longrightarrow> pages lo hi = []"
  by (simp add: pages_def)

lemma pages_append:
  assumes "PAGE_SIZE dvd lo" and "PAGE_SIZE dvd mid" and "PAGE_SIZE dvd hi" and "lo \<le> mid" and "mid \<le> hi"
  shows "pages lo hi = pages lo mid @ pages mid hi"
  using assms
proof (induction "mid - lo" arbitrary: lo rule: less_induct)
  case less
  show ?case
  proof (cases "lo = mid")
    case False
    then have l: "lo < mid" "lo < hi" using less.prems by auto
    have "PAGE_SIZE dvd mid - lo" using less.prems by (simp add: dvd_diff_nat)
    then have "lo + PAGE_SIZE \<le> mid" using l by (auto dest: dvd_imp_le)
    moreover have "PAGE_SIZE dvd lo + PAGE_SIZE" using less.prems(1) by (rule dvd_add) simp
    ultimately show ?thesis
      using less.hyps [of "lo + PAGE_SIZE"] less.prems l pages_step [of lo hi] pages_step [of lo mid] by simp
  qed (simp add: pages_empty)
qed

context addr_arith
begin

lemma holes_loop_pages:
  assumes "ok j" "ok nxt" "PAGE_SIZE dvd val j" "PAGE_SIZE dvd val nxt"
    and "val j \<le> val nxt" "val nxt + PAGE_SIZE < bound"
  shows "\<exists>hs. holes_loop add cmp j nxt = Some hs \<and> map val hs = pages (val j) (val nxt) \<and> (\<forall>h \<in> set hs. ok h)"
  using assms
proof (induction "val nxt - val j" arbitrary: j rule: less_induct)
  case less
  show ?case
  proof (cases "val j = val nxt")
    case True
    then show ?thesis using less.prems cmp_lt [of j nxt] by (subst holes_loop.simps) (simp add: pages_empty)
  next
    case False
    then have l: "val j < val nxt" using less.prems by simp
    have "PAGE_SIZE dvd val nxt - val j" using less.prems by (simp add: dvd_diff_nat)
    then have le: "val j + PAGE_SIZE \<le> val nxt" using l by (auto dest: dvd_imp_le)
    let ?j = "add j (ji (int PAGE_SIZE))"
    have a: "ok ?j \<and> val ?j = val j + PAGE_SIZE" using less.prems le by (intro add_ok) auto
    have d: "PAGE_SIZE dvd val j + PAGE_SIZE" using less.prems(3) by (rule dvd_add) simp
    have "val nxt - val ?j < val nxt - val j" using a l by simp
    then have "\<exists>hs. holes_loop add cmp ?j nxt = Some hs \<and> map val hs = pages (val ?j) (val nxt) \<and> (\<forall>h \<in> set hs. ok h)"
      using a d le less.prems by (intro less.hyps) auto
    then obtain hs where hs: "holes_loop add cmp ?j nxt = Some hs"
      "map val hs = pages (val j + PAGE_SIZE) (val nxt)" "\<forall>h \<in> set hs. ok h"
      using a by auto
    then show ?thesis
      using less.prems cmp_lt [of j nxt] l pages_step [of "val j" "val nxt"]
      by (subst holes_loop.simps) simp
  qed
qed

text \<open>
  The pages of a group: from its first page to the last one of the input it takes, without a hole;
  the next input page is at least eight pages away.
\<close>

lemma chunk_loop_pages:
  assumes "\<forall>a \<in> set (caddr # as). ok a \<and> PAGE_SIZE dvd val a \<and> val a + 8 * PAGE_SIZE < bound"
    and "sorted_wrt (\<lambda>a b. val a < val b) (caddr # as)"
  shows "\<exists>c r taken. chunk_loop add cmp caddr as = Some (c, r) \<and> as = taken @ r
    \<and> set taken \<subseteq> set c \<and> (\<forall>x \<in> set c. ok x)
    \<and> last (caddr # c) = last (caddr # taken)
    \<and> map val (caddr # c) = pages (val caddr) (val (last (caddr # c)) + PAGE_SIZE)
    \<and> (r \<noteq> [] \<longrightarrow> val (last (caddr # c)) + 8 * PAGE_SIZE \<le> val (hd r))"
  using assms
proof (induction as arbitrary: caddr)
  case Nil
  then show ?case using pages_step [of "val caddr" "val caddr + PAGE_SIZE"] by (simp add: pages_empty)
next
  case (Cons a as)
  let ?n = "add caddr (ji (int PAGE_SIZE))" and ?e = "add caddr (ji (int PAGE_SIZE * 8))"
  have n: "ok ?n \<and> val ?n = val caddr + PAGE_SIZE" using Cons.prems(1) by (intro add_ok) auto
  have e: "ok ?e \<and> val ?e = val caddr + 8 * PAGE_SIZE"
    using Cons.prems(1) add_ok [of caddr "8 * PAGE_SIZE"] by (simp add: mult.commute)
  have ca: "val caddr < val a" and a: "ok a" "PAGE_SIZE dvd val a" using Cons.prems by auto
  show ?case
  proof (cases "val a < val ?e")
    case False
    then show ?thesis
      using Cons.prems e a cmp_gt [of ?e a] pages_step [of "val caddr" "val caddr + PAGE_SIZE"]
      by (simp add: pages_empty)
  next
    case True
    have "PAGE_SIZE dvd val a - val caddr" using Cons.prems by (simp add: dvd_diff_nat)
    then have le: "val caddr + PAGE_SIZE \<le> val a" using ca by (auto dest: dvd_imp_le)
    have dn: "PAGE_SIZE dvd val caddr + PAGE_SIZE" using Cons.prems(1) by (intro dvd_add) auto
    obtain hs where hs: "holes_loop add cmp ?n a = Some hs"
      "map val hs = pages (val caddr + PAGE_SIZE) (val a)" "\<forall>h \<in> set hs. ok h"
      using holes_loop_pages [of ?n a] n a le dn Cons.prems(1) by auto
    have "\<forall>a \<in> set (a # as). ok a \<and> PAGE_SIZE dvd val a \<and> val a + 8 * PAGE_SIZE < bound"
      "sorted_wrt (\<lambda>a b. val a < val b) (a # as)" using Cons.prems by auto
    from Cons.IH [OF this] obtain c r taken where c: "chunk_loop add cmp a as = Some (c, r)" "as = taken @ r" "set taken \<subseteq> set c"
      "\<forall>x \<in> set c. ok x" "last (a # c) = last (a # taken)"
      "map val (a # c) = pages (val a) (val (last (a # c)) + PAGE_SIZE)"
      "r \<noteq> [] \<longrightarrow> val (last (a # c)) + 8 * PAGE_SIZE \<le> val (hd r)"
      by blast
    let ?l = "val (last (a # c))"
    have last: "last (caddr # hs @ a # c) = last (a # c)" by simp
    have "last (a # taken) \<in> set (a # as)" using c(2) last_in_set [of "a # taken"] by auto
    then have lp: "val a \<le> ?l" "PAGE_SIZE dvd ?l" using Cons.prems c(5) by auto
    have "map val (caddr # hs @ a # c) = val caddr # pages (val caddr + PAGE_SIZE) (val a) @ pages (val a) (?l + PAGE_SIZE)"
      using hs(2) c(6) by simp
    also have "\<dots> = pages (val caddr) (val a) @ pages (val a) (?l + PAGE_SIZE)"
      using pages_step [of "val caddr" "val a"] Cons.prems(1) ca by simp
    also have "\<dots> = pages (val caddr) (?l + PAGE_SIZE)"
      using Cons.prems(1) ca lp by (intro pages_append [symmetric]) auto
    finally have pg: "map val (caddr # hs @ a # c) = pages (val caddr) (?l + PAGE_SIZE)" .
    have ch: "chunk_loop add cmp caddr (a # as) = Some (hs @ a # c, r)"
      using True e a cmp_gt [of ?e a] hs(1) c(1) by simp
    have ok: "\<forall>x \<in> set (hs @ a # c). ok x" using hs(3) c(4) a by auto
    have tk: "a # as = (a # taken) @ r" "set (a # taken) \<subseteq> set (hs @ a # c)" using c(2,3) by auto
    have lt: "last (caddr # hs @ a # c) = last (caddr # a # taken)" using c(5) by simp
    show ?thesis
      by (intro exI [of _ "hs @ a # c"] exI [of _ r] exI [of _ "a # taken"] conjI)
         (use ch ok tk lt pg c(7) last in simp_all)
  qed
qed

end

context addr_arith
begin

lemma pchunks_pages:
  assumes "\<forall>a \<in> set as. ok a \<and> PAGE_SIZE dvd val a \<and> val a + 8 * PAGE_SIZE < bound"
    and "sorted_wrt (\<lambda>a b. val a < val b) as"
  shows "\<exists>ps. pchunks_loop add cmp as = Some ps \<and> set as \<subseteq> set (concat ps)
    \<and> (\<forall>c \<in> set ps. c \<noteq> [] \<and> hd c \<in> set as \<and> last c \<in> set as \<and> (\<forall>x \<in> set c. ok x)
         \<and> map val c = pages (val (hd c)) (val (last c) + PAGE_SIZE))
    \<and> sorted_wrt (\<lambda>c d. val (last c) + 8 * PAGE_SIZE \<le> val (hd d)) ps"
  using assms
proof (induction as rule: measure_induct_rule [of length])
  case (less as)
  show ?case
  proof (cases as)
    case (Cons a bs)
    obtain c r taken where c: "chunk_loop add cmp a bs = Some (c, r)" "bs = taken @ r" "set taken \<subseteq> set c"
      "\<forall>x \<in> set c. ok x" "last (a # c) = last (a # taken)"
      "map val (a # c) = pages (val a) (val (last (a # c)) + PAGE_SIZE)"
      "r \<noteq> [] \<longrightarrow> val (last (a # c)) + 8 * PAGE_SIZE \<le> val (hd r)"
      using chunk_loop_pages [of a bs] less.prems Cons by blast
    have r: "length r < length as" "set r \<subseteq> set as" "sorted_wrt (\<lambda>a b. val a < val b) r"
      using less.prems(2) c(2) Cons by (auto simp: sorted_wrt_append)
    then have "\<forall>a \<in> set r. ok a \<and> PAGE_SIZE dvd val a \<and> val a + 8 * PAGE_SIZE < bound"
      using less.prems(1) by blast
    from less.IH [OF r(1) this r(3)] obtain ps where ps: "pchunks_loop add cmp r = Some ps"
      "set r \<subseteq> set (concat ps)"
      "\<forall>c \<in> set ps. c \<noteq> [] \<and> hd c \<in> set r \<and> last c \<in> set r \<and> (\<forall>x \<in> set c. ok x)
         \<and> map val c = pages (val (hd c)) (val (last c) + PAGE_SIZE)"
      "sorted_wrt (\<lambda>c d. val (last c) + 8 * PAGE_SIZE \<le> val (hd d)) ps" by blast
    have "last (a # taken) \<in> set as" using c(2) Cons last_in_set [of "a # taken"] by auto
    then have la: "last (a # c) \<in> set as" using c(5) by simp
    have hd_le: "val (hd r) \<le> val x" if "x \<in> set r" for x
      using that r(3) by (cases r) auto
    have away: "val (last (a # c)) + 8 * PAGE_SIZE \<le> val (hd d)" if "d \<in> set ps" for d
    proof -
      have d: "hd d \<in> set r" using that ps(3) by blast
      then have "r \<noteq> []" by auto
      with c(7) hd_le [OF d] show ?thesis by linarith
    qed
    have "pchunks_loop add cmp as = Some ((a # c) # ps)" using c(1) ps(1) Cons by simp
    moreover have "set as \<subseteq> set (concat ((a # c) # ps))" using c(2,3) ps(2) Cons by auto
    moreover have "\<forall>c \<in> set ((a # c) # ps). c \<noteq> [] \<and> hd c \<in> set as \<and> last c \<in> set as \<and> (\<forall>x \<in> set c. ok x)
         \<and> map val c = pages (val (hd c)) (val (last c) + PAGE_SIZE)"
    proof -
      have "ok a" "a \<in> set as" using less.prems(1) Cons by auto
      with c(4,6) la ps(3) r(2) show ?thesis by (auto simp del: last.simps) 
    qed
    moreover have "sorted_wrt (\<lambda>c d. val (last c) + 8 * PAGE_SIZE \<le> val (hd d)) ((a # c) # ps)"
      using ps(4) away by (simp del: last.simps)
    ultimately show ?thesis by blast
  qed simp
qed

end

section \<open>The pages of the client\<close>

lemma page_addrs_sorted:
  assumes "distinct (map fst pmaps)" and "\<forall>k \<in> fst ` set pmaps. canon64 k"
  shows "sorted_wrt (\<lambda>a b. hexv a < hexv b) (page_addrs pmaps)"
    and "set (page_addrs pmaps) = {k. \<exists>v. (k, v) \<in> set pmaps \<and> v \<noteq> ''romemory''}"
proof -
  let ?ks = "map fst (filter (\<lambda>(k, v). v \<noteq> ''romemory'') pmaps)"
  have c: "\<forall>k \<in> set ?ks. canon64 k" using assms(2) by auto
  then have "\<forall>x \<in> set ?ks. \<forall>y \<in> set ?ks. js_lt (ji 0) (bn_cmp x y) \<longleftrightarrow> hexv y < hexv x"
    using bn.cmp_gt by blast
  then have s: "page_addrs pmaps = sort_key hexv ?ks" unfolding page_addrs_def by (rule js_sort_key)
  have "distinct ?ks" using assms(1) by (rule distinct_map_filter)
  moreover have "inj_on hexv (set ?ks)" using c canon64_inj unfolding inj_on_def by blast
  ultimately have "distinct (map hexv ?ks)" unfolding distinct_map [of hexv] by blast
  then have "distinct (map hexv (page_addrs pmaps))" unfolding s distinct_map [of hexv] by (simp only: distinct_sort set_sort simp_thms)
  moreover have "sorted (map hexv (page_addrs pmaps))" unfolding s by simp
  ultimately have "sorted_wrt (<) (map hexv (page_addrs pmaps))" by (simp add: strict_sorted_iff)
  then show "sorted_wrt (\<lambda>a b. hexv a < hexv b) (page_addrs pmaps)" by (simp add: sorted_wrt_map)
  show "set (page_addrs pmaps) = {k. \<exists>v. (k, v) \<in> set pmaps \<and> v \<noteq> ''romemory''}"
    unfolding s set_sort by force
qed

text \<open>Pages as the server reports them: canonical, aligned, not among the last eight of the address space.\<close>

definition good_pmaps :: "(string \<times> string) list \<Rightarrow> bool" where
  "good_pmaps pmaps \<longleftrightarrow> distinct (map fst pmaps)
     \<and> (\<forall>(k, v) \<in> set pmaps. canon64 k \<and> PAGE_SIZE dvd hexv k \<and> hexv k + 8 * PAGE_SIZE < 2 ^ 64)"

lemma pchunks_of_pmaps:
  assumes "good_pmaps pmaps"
  shows "\<exists>ps. pchunks_loop bn_add bn_cmp (page_addrs pmaps) = Some ps
    \<and> {k. \<exists>v. (k, v) \<in> set pmaps \<and> v \<noteq> ''romemory''} \<subseteq> set (concat ps)
    \<and> (\<forall>c \<in> set ps. c \<noteq> [] \<and> map hexv c = pages (hexv (hd c)) (hexv (last c) + PAGE_SIZE))
    \<and> sorted_wrt (\<lambda>c d. hexv (last c) + 8 * PAGE_SIZE \<le> hexv (hd d)) ps"
proof -
  have d: "distinct (map fst pmaps)" and c: "\<forall>k \<in> fst ` set pmaps. canon64 k"
    and g: "\<forall>(k, v) \<in> set pmaps. canon64 k \<and> PAGE_SIZE dvd hexv k \<and> hexv k + 8 * PAGE_SIZE < 2 ^ 64"
    using assms by (auto simp: good_pmaps_def)
  have "\<forall>k \<in> set (page_addrs pmaps). canon64 k \<and> PAGE_SIZE dvd hexv k \<and> hexv k + 8 * PAGE_SIZE < 2 ^ 64"
    using g unfolding page_addrs_sorted(2) [OF d c] by blast
  from bn.pchunks_pages [OF this page_addrs_sorted(1) [OF d c]]
  show ?thesis unfolding page_addrs_sorted(2) [OF d c] by blast
qed

section \<open>Flags on the line\<close>

text \<open>The flag is drawn at its share of the fifteen pixels of its page; no rounding occurs.\<close>

lemma hflag_offset:
  assumes "is_addr addr"
  shows "js_sub (js_mul (js_div (js_mul (bn_mod addr 3) (ji 1)) (ji (int PAGE_SIZE))) (ji 15)) (js_div (ji 1) (ji 2))
    = Fin (of_nat (hexv addr mod PAGE_SIZE) * 15 / of_nat PAGE_SIZE - 1 / 2)"
proof -
  define m where "m = int (hexv addr mod PAGE_SIZE)"
  have b: "0 \<le> m" "m < 4096" by (simp_all add: m_def)
  have "bn_mod addr 3 = ji m" using assms by (simp add: bn_mod_val m_def)
  then have 1: "js_div (js_mul (bn_mod addr 3) (ji 1)) (ji (int PAGE_SIZE)) = Fin (of_int m / 2 ^ 12)"
    using js_div_pow2 [of m 12] b by (simp add: safe_def)
  have 2: "js_mul (Fin (of_int m / 2 ^ 12)) (ji 15) = Fin (of_int (m * 15) / 2 ^ 12)"
    using jsfin_dyadic [of "m * 15" 12] b by (simp add: ji_def safe_def)
  have 3: "js_div (ji 1) (ji 2) = Fin (1 / 2)" using js_div_pow2 [of 1 1] by (simp add: safe_def)
  have 4: "js_sub (Fin (of_int (m * 15) / 2 ^ 12)) (Fin (1 / 2)) = Fin (of_int (m * 15) / 2 ^ 12 - 1 / 2)"
    using jsfin_dyadic [of "m * 15 - 2048" 12] b by (simp add: safe_def diff_divide_distrib js_sub_def)
  show ?thesis unfolding 1 2 3 4 by (simp add: m_def)
qed

section \<open>Clicking on a page\<close>

lemma underscore_not_addr [simp]: "CHR ''_'' \<notin> set (addr_of v)"
  using all_digits_digits [of 16 v] digit_not_special(7) [of 16] by (auto simp: addr_of_def all_digits_def)

lemma get_addr_find: "find pe_pchunk tt = Some t \<Longrightarrow> get_addr tt pX = get_addr [t] pX"
  by (induction tt) (auto split: if_splits)

lemma page_offset:
  fixes n wd :: int
  assumes "0 \<le> n" and "n < wd"
  shows "0 \<le> n * 4096 div wd" and "n * 4096 div wd < 4096"
proof -
  show "0 \<le> n * 4096 div wd" using assms by (simp add: pos_imp_zdiv_nonneg_iff)
  have "n * 4096 div wd * wd \<le> n * 4096" using assms pos_mod_sign [of wd "n * 4096"] by (simp flip: minus_mod_eq_div_mult)
  also have "\<dots> < 4096 * wd" using assms by simp
  finally show "n * 4096 div wd < 4096" using assms by simp
qed

text \<open>The address under the mouse: the share of the page is exact though the arithmetic rounds.\<close>

lemma get_addr_page:
  assumes e: "find pe_pchunk tt = Some e" "pe_id e = ''pchunk_'' @ addr_of v" "pe_left e = ji l" "pe_width e = ji wd"
    and pX: "l \<le> pX" "pX < l + wd" "wd < 2 ^ 30" and v: "v < 2 ^ 64"
  shows "get_addr tt (ji pX) = Some (addr_of (v + nat ((pX - l) * 4096 div wd)))"
proof -
  have p: "pe_pchunk e" using e(1) by (auto simp: find_Some_iff)
  have "js_split CHR ''_'' (''pchunk'' @ CHR ''_'' # addr_of v) = [''pchunk'', addr_of v]"
    by (subst js_split_sep) simp_all
  then have s: "js_split CHR ''_'' (pe_id e) = [''pchunk'', addr_of v]" using e(2) by simp
  have sub: "js_mul (js_sub (ji pX) (ji l)) (ji 1) = ji (pX - l)" using pX by (simp add: safe_def)
  have k: "0 \<le> (pX - l) * 4096 div wd" "(pX - l) * 4096 div wd < 2 ^ 32"
    using page_offset [of "pX - l" wd] pX by simp_all
  show ?thesis
    using p s sub floor_scaled [of "pX - l" wd] pX bn_add_canon [of "addr_of v", OF _ k] v e(3,4)
    by (simp add: get_addr_find [OF e(1)])
qed

lemma haddrline_click_page:
  assumes e: "find pe_pchunk tt = Some e" "pe_id e = ''pchunk_'' @ addr_of v" "pe_left e = ji l" "pe_width e = ji wd"
    and pX: "l \<le> pX" "pX < l + wd" "wd < 2 ^ 30" and v: "v < 2 ^ 64" "v mod 4096 = 0" and idle: "mtrack w = None"
  shows "\<exists>off < 4096. off = nat ((pX - l) * 4096 div wd) \<and> bn_round (addr_of (v + off)) 3 = addr_of v
    \<and> msession (fst (haddrline_click tt (ji pX) w)) ''daddr'' = Some (VStr (addr_of (v + off)))
    \<and> msession (haddrline_contextmenu tt (ji pX) w) = (msession w)(''dirtyiaddr'' \<mapsto> VBool True, ''iaddr'' \<mapsto> VStr (addr_of (v + off)))"
proof -
  define off where "off = nat ((pX - l) * 4096 div wd)"
  have o: "off < 4096" using page_offset [of "pX - l" wd] pX by (simp add: off_def)
  have "get_addr tt (ji pX) = Some (addr_of (v + off))" using get_addr_page [OF e pX v(1)] by (simp add: off_def)
  moreover have "(v + off) div 16 ^ 3 * 16 ^ 3 = v" using v(2) o by (simp add: div_add1_eq mult_div_mod_eq) (metis add.right_neutral div_mult_mod_eq)
  ultimately show ?thesis
    using o update_dview_session [OF idle] idle
    by (intro exI [of _ off]) (simp add: haddrline_click_def haddrline_contextmenu_def off_def bn_round_addr_of)
qed

end
