(* ===== verification/Regmem.thy ===== *)
theory Regmem
  imports Haddrline Highlight
begin

text \<open>
  \<open>web/client/regmem.js\<close>: the memory view (a hex editor in which words that are addresses are
  links), the register view and the list of data changes, with the requests that keep them up to
  date.
\<close>

section \<open>Register flags\<close>

definition on_maxclnum :: "forks \<Rightarrow> world \<Rightarrow> world" where
  "on_maxclnum msg w = update_maxclnum msg w"

definition on_pmaps :: "(string \<times> string) list \<Rightarrow> world \<Rightarrow> world" where
  "on_pmaps msg w = session_set ''pmaps'' (Some (VPmaps msg)) w"

text \<open>
  A register whose value is the address of a cell of the memory view puts a mark on it, three
  pixels beside the marks already there. An element of the register view is never marked; it comes
  first in the document.
\<close>

definition reg_flag :: "register \<Rightarrow> world \<Rightarrow> world" where
  "reg_flag th w =
     (let i = ''data_'' @ r_value th in
      if i \<in> set (reg_cells w) then w
      else case map_of (mem_cells w) i of
        None \<Rightarrow> w
      | Some n \<Rightarrow>
          (let there = length (filter (\<lambda>f. rf_cell f = i) (rflags w))
           in w\<lparr>rflags := rflags w @ [\<lparr>rf_cell = i,
                rf_color = (if r_num th < length regcolors then Some (regcolors ! r_num th) else None),
                rf_left = (int (n + there) - 1) * 3\<rparr>]\<rparr>))"

definition redraw_reg_flags :: "world \<Rightarrow> world" where
  "redraw_reg_flags w =
     (let w = w\<lparr>rflags := []\<rparr> in
      case current_regs w of None \<Rightarrow> w | Some regs \<Rightarrow> fold reg_flag regs w)"

section \<open>The memory view\<close>

definition hexdump_mousewheel :: "jsnum \<Rightarrow> world \<Rightarrow> world \<times> js_error option" where
  "hexdump_mousewheel wheelDelta w =
     (if js_lt wheelDelta (ji 0) \<or> js_lt (ji 0) wheelDelta then
        (let (dv, w) = session_get ''dview'' False w in
         case str_of dv of
           None \<Rightarrow> (w, Some (TypeError ''substr of undefined''))
         | Some d \<Rightarrow> (session_set ''dview'' (Some (VStr
             (bn_add d (ji (if js_lt wheelDelta (ji 0) then 0x10 else - 0x10))))) w, None))
      else (w, None))"

record memmsg =
  mm_address :: string
  mm_len :: nat
  mm_ptrsize :: nat
  mm_big_endian :: bool
  mm_dat :: "nat \<Rightarrow> nat option"  \<comment> \<open>\<open>dat[i]\<close>, the byte at an offset, if it is known\<close>

definition hex2_byte_opt :: "nat option \<Rightarrow> string" where
  "hex2_byte_opt b = hex2 (map_option (\<lambda>n. ji (int n)) b)"

text \<open>The word at an offset, most significant byte first.\<close>

definition mem_word :: "memmsg \<Rightarrow> nat \<Rightarrow> string" where
  "mem_word msg i =
     (let js = (if mm_big_endian msg then [0..<mm_ptrsize msg] else rev [0..<mm_ptrsize msg])
      in bn_canonicalize (''0x'' @ concat (map (\<lambda>j. hex2_byte_opt (mm_dat msg (i + j))) js)))"

definition ascii_html :: "nat option \<Rightarrow> string" where
  "ascii_html ii = (case ii of
       None \<Rightarrow> ''&nbsp;''
     | Some b \<Rightarrow> if b = 0x20 then ''&nbsp;'' else if b = 0x26 then ''&amp;'' else if b = 0x3C then ''&lt;''
         else if b = 0x3E then ''&gt;'' else if 0x21 \<le> b \<and> b \<le> 0x7e then [char_of b] else ''.'')"

definition nat_str :: "nat \<Rightarrow> string" where
  "nat_str n = int_to_string 10 (int n)"

text \<open>One word: its cell or cells, with their ids.\<close>

definition word_html :: "memmsg \<Rightarrow> nat \<Rightarrow> string \<Rightarrow> string \<Rightarrow> string \<times> (string \<times> nat) list" where
  "word_html msg i v a =
     (if a \<noteq> [] then
        let exclass = ''data_'' @ bn_add (mm_address msg) (ji (int i));
            minwidth = (if mm_ptrsize msg = 8 then 172 else 84)
        in (''<td colspan='' @ dq @ nat_str (mm_ptrsize msg) @ dq @ ''><div style='' @ dq @ ''overflow: hidden; width:''
              @ nat_str minwidth @ ''px'' @ dq @ '' id='' @ dq @ exclass @ dq @ ''><div class='' @ dq @ ''data hexdump''
              @ a @ '' '' @ exclass @ '' addr addr_'' @ v @ dq @ ''>'' @ v @ ''</div></div></td>'', [(exclass, 1)])
      else
        let cell = (\<lambda>j. ''data_'' @ bn_add (mm_address msg) (ji (int (i + j))))
        in (concat (map (\<lambda>j. ''<td class='' @ dq @ ''data '' @ cell j @ dq @ '' id='' @ dq @ cell j @ dq @ ''>''
              @ hex2_byte_opt (mm_dat msg (i + j)) @ ''</td>'') [0..<mm_ptrsize msg]),
            map (\<lambda>j. (cell j, 0)) [0..<mm_ptrsize msg]))"

text \<open>
  The loop over the words. With a pointer size of zero it would not end; it builds up the markup
  and the cells.
\<close>

partial_function (option) memory_loop :: "memmsg \<Rightarrow> nat \<Rightarrow> world \<Rightarrow> ((js_error + string \<times> (string \<times> nat) list) \<times> world) option" where
  "memory_loop msg i w =
     (if i < mm_len msg then
        (let row = (if i mod 16 = 0 then ''</tr><tr><td>'' @ bn_add (mm_address msg) (ji (int i)) @ '':</td>'' else [])
               @ ''<td></td>'';
             v = mem_word msg i
         in case get_data_type (VStr v) False w of
              (Inl e, w) \<Rightarrow> Some (Inl e, w)
            | (Inr a, w) \<Rightarrow>
                (let (h, cells) = word_html msg i v a;
                     asc = (if int (i mod 16) = 16 - int (mm_ptrsize msg)
                            then ''<td>'' @ concat (map (\<lambda>j. ascii_html (mm_dat msg (i - (16 - mm_ptrsize msg) + j))) [0..<16]) @ ''</td>''
                            else [])
                 in Option.bind (memory_loop msg (i + mm_ptrsize msg) w) (\<lambda>(r, w).
                      Some (case r of Inl e \<Rightarrow> (Inl e, w)
                            | Inr (rest, cs) \<Rightarrow> (Inr (row @ h @ asc @ rest, cells @ cs), w)))))
      else Some (Inr ([], []), w))"

definition on_memory :: "memmsg \<Rightarrow> world \<Rightarrow> world \<times> js_error option" where
  "on_memory msg w =
     (let (_, w) = session_get ''daddr'' False w in
      case memory_loop msg 0 w of
        None \<Rightarrow> (w, Some (Thrown ''out of memory''))
      | Some (Inl e, w) \<Rightarrow> (w, Some e)
      | Some (Inr (h, cells), w) \<Rightarrow>
          (let w = set_dom ''hexdump'' (''<table class='' @ sq @ ''fill'' @ sq @ ''><tr>'' @ h @ ''</tr></table>'') w;
               w = w\<lparr>mem_cells := cells\<rparr>
           in (replace_names (rehighlight (redraw_reg_flags w)), None)))"

definition minus_num :: "sval option \<Rightarrow> int \<Rightarrow> sval option" where
  "minus_num v k = Some (VNum (js_sub (num_of v) (ji k)))"

definition autorun_getmemory :: "world \<Rightarrow> world \<times> js_error option" where
  "autorun_getmemory w =
     (let (forknum, w) = session_get ''forknum'' False w;
          (_, w) = session_get ''daddr'' False w;
          (dview, w) = session_get ''dview'' False w;
          (clnum, w) = session_get ''clnum'' False w
      in if dview = None then (set_dom ''hexdump'' [] (w\<lparr>mem_cells := [], rflags := []\<rparr>), None)
         else (emit ''getmemory'' [forknum, minus_num clnum 1, dview, Some (VNum (ji 0x200))] w, None))"

definition autorun_getregisters :: "world \<Rightarrow> world \<times> js_error option" where
  "autorun_getregisters w =
     (let (forknum, w) = session_get ''forknum'' False w;
          (clnum, w) = session_get ''clnum'' False w
      in (emit ''getregisters'' [forknum, minus_num clnum 1] w, None))"

section \<open>The register view\<close>

definition reg_color :: "nat \<Rightarrow> string" where
  "reg_color n = (if n < length regcolors then regcolors ! n else ''undefined'')"

text \<open>\<open>replace\<close> of a string pattern replaces its first occurrence only.\<close>

fun replace_dollar :: "string \<Rightarrow> string" where
  "replace_dollar [] = []"
| "replace_dollar (c # cs) = (if c = CHR ''$'' then CHR ''r'' # cs else c # replace_dollar cs)"

definition rename_reg :: "register \<Rightarrow> register" where
  "rename_reg r = r\<lparr>r_display_name := r_name r, r_name := replace_dollar (r_name r)\<rparr>"

definition reg_html :: "register \<Rightarrow> string \<Rightarrow> string" where
  "reg_html r exclass = ''<div class='' @ dq @ ''reg '' @ r_regactions r @ dq @ ''><div class='' @ dq @ ''register data data_''
     @ hex (Some (r_address r)) @ dq @ '' id='' @ dq @ ''data_'' @ hex (Some (r_address r)) @ dq @ '' style='' @ dq @ ''color:''
     @ reg_color (r_num r) @ dq @ ''>'' @ r_display_name r @ '': </div><span class='' @ dq @ exclass @ dq @ ''>'' @ r_value r
     @ ''</span></div>''"

text \<open>The message object is \<open>current_regs\<close> itself, so renaming a register shows there.\<close>

fun regs_loop :: "register list \<Rightarrow> register list \<Rightarrow> world \<Rightarrow> (js_error + string) \<times> world" where
  "regs_loop finished [] w = (Inr [], w)"
| "regs_loop finished (r0 # rs) w =
     (let r = rename_reg r0;
          w = w\<lparr>current_regs := Some (finished @ r # rs)\<rparr>;
          w = draw_hflag (r_value r) (r_name r) (reg_color (r_num r)) False w
      in case get_data_type (VStr (r_value r)) False w of
           (Inl e, w) \<Rightarrow> (Inl e, w)
         | (Inr cl, w) \<Rightarrow>
             (let exclass = (if cl = [] then [] else cl @ '' addr addr_'' @ r_value r) in
              case regs_loop (finished @ [r]) rs w of
                (Inl e, w) \<Rightarrow> (Inl e, w)
              | (Inr rest, w) \<Rightarrow> (Inr (reg_html r exclass @ rest), w)))"

definition on_registers :: "register list \<Rightarrow> world \<Rightarrow> world \<times> js_error option" where
  "on_registers msg w =
     (let w = redraw_reg_flags (w\<lparr>current_regs := Some msg\<rparr>) in
      if msg = [] then (w, Some (TypeError ''size of undefined'')) else
      case regs_loop [] msg w of
        (Inl e, w) \<Rightarrow> (w, Some e)
      | (Inr h, w) \<Rightarrow>
          (let w = set_dom ''regviewer'' h w;
               w = w\<lparr>reg_cells := map (\<lambda>r. ''data_'' @ hex (Some (r_address r))) msg\<rparr>
           in (replace_names (rehighlight w), None)))"

section \<open>Data changes\<close>

definition autorun_datachanges :: "world \<Rightarrow> world \<times> js_error option" where
  "autorun_datachanges w =
     (let (forknum, w) = session_get ''forknum'' False w;
          (clnum, w) = session_get ''clnum'' False w
      in (emit ''getclnum'' [forknum, clnum, Some (VArr [VStr ''L'', VStr ''S'']), Some (VNum (ji 2))] w, None))"

record datachange =
  dc_type :: string
  dc_address :: string
  dc_data :: string

fun changes_html :: "datachange list \<Rightarrow> (js_error + string) handler" where
  "changes_html [] w = (Inr [], w)"
| "changes_html (dc # dcs) w =
     (let typeclass = (if dc_type dc = ''L'' then ''regread'' else if dc_type dc = ''S'' then ''regwrite'' else []) in
      case get_data_type (VStr (dc_address dc)) True w of
        (Inl e, w) \<Rightarrow> (Inl e, w)
      | (Inr ca, w) \<Rightarrow>
          (case get_data_type (VStr (dc_data dc)) True w of
             (Inl e, w) \<Rightarrow> (Inl e, w)
           | (Inr cd, w) \<Rightarrow>
               (case changes_html dcs w of
                  (Inl e, w) \<Rightarrow> (Inl e, w)
                | (Inr rest, w) \<Rightarrow>
                    (Inr (''<div class='' @ dq @ ''datachanges '' @ typeclass @ dq @ ''> <span class='' @ dq @ ca @ dq @ ''>''
                       @ dc_address dc @ ''</span> '' @ (if dc_type dc = ''S'' then ''&lt;--'' else ''--'') @ '' <span class=''
                       @ dq @ cd @ dq @ ''>'' @ dc_data dc @ ''</span> </div> '' @ rest), w))))"

definition on_clnum :: "datachange list \<Rightarrow> world \<Rightarrow> world \<times> js_error option" where
  "on_clnum msg w = (case changes_html msg w of
       (Inl e, w) \<Rightarrow> (w, Some e)
     | (Inr h, w) \<Rightarrow> (set_dom ''datachanges'' h w, None))"

section \<open>The word at an offset\<close>

definition be_val :: "nat list \<Rightarrow> nat" where
  "be_val bs = foldl (\<lambda>a b. a * 256 + b) 0 bs"

lemma be_val_snoc [simp]: "be_val (bs @ [b]) = be_val bs * 256 + b" "be_val [] = 0"
  by (simp_all add: be_val_def)

lemma hex_bytes:
  assumes "\<forall>b \<in> set bs. b < 256"
  shows "lower_digits 16 (concat (map (\<lambda>b. hex2_byte_opt (Some b)) bs))
    \<and> dval 16 (concat (map (\<lambda>b. hex2_byte_opt (Some b)) bs)) = be_val bs"
  using assms
proof (induction bs rule: rev_induct)
  case (snoc b bs)
  have b: "length (hex2_byte_opt (Some b)) = 2" "lower_digits 16 (hex2_byte_opt (Some b))"
    "dval 16 (hex2_byte_opt (Some b)) = b"
    using hex2_byte [of "int b"] snoc.prems by (simp_all add: hex2_byte_opt_def)
  with snoc show ?case by (auto simp: dval_append lower_digits_def)
qed (simp add: lower_digits_def)

lemma be_val_le: "be_val (map f (rev [0..<n])) = (\<Sum>j<n. f j * 256 ^ j)"
proof -
  have "be_val (b # bs) = b * 256 ^ length bs + be_val bs" for b bs
    by (induction bs rule: rev_induct) (simp_all add: be_val_def algebra_simps)
  then show ?thesis by (induction n) simp_all
qed

lemma be_val_be: "be_val (map f [0..<n]) = (\<Sum>j<n. f j * 256 ^ (n - 1 - j))"
proof (induction n)
  case (Suc n)
  have "(\<Sum>j<n. f j * 256 ^ (Suc n - 1 - j)) = (\<Sum>j<n. f j * 256 ^ (n - 1 - j)) * 256"
    unfolding sum_distrib_right by (rule sum.cong) (auto simp: Suc_diff_Suc algebra_simps simp flip: power_Suc)
  with Suc show ?case by simp
qed simp

lemma mem_word_val:
  assumes "\<forall>j < mm_ptrsize msg. f j < 256 \<and> mm_dat msg (i + j) = Some (f j)"
    and v: "v = (\<Sum>j < mm_ptrsize msg. f j * 256 ^ (if mm_big_endian msg then mm_ptrsize msg - 1 - j else j))"
  shows "mem_word msg i = (if v = 0 then ''0x'' else addr_of v)"
proof -
  define js where "js = (if mm_big_endian msg then [0..<mm_ptrsize msg] else rev [0..<mm_ptrsize msg])"
  have js: "set js = {0..<mm_ptrsize msg}" by (simp add: js_def)
  have "map (\<lambda>j. hex2_byte_opt (mm_dat msg (i + j))) js = map (\<lambda>b. hex2_byte_opt (Some b)) (map f js)"
    using assms(1) js by simp
  then have w: "mem_word msg i = bn_canonicalize (''0x'' @ concat (map (\<lambda>b. hex2_byte_opt (Some b)) (map f js)))"
    by (simp only: mem_word_def Let_def flip: js_def)
  have "\<forall>b \<in> set (map f js). b < 256" using assms(1) js by auto
  note hb = hex_bytes [OF this]
  have "be_val (map f js) = v"
    unfolding v js_def by (simp add: be_val_le be_val_be)
  with hb show ?thesis unfolding w by (simp only: bn_canonicalize_val)
qed

section \<open>The loop over the words\<close>

definition cell_id :: "memmsg \<Rightarrow> nat \<Rightarrow> string" where
  "cell_id msg i = ''data_'' @ bn_add (mm_address msg) (ji (int i))"

lemma word_html_cell: "0 < mm_ptrsize msg \<Longrightarrow> cell_id msg i \<in> fst ` set (snd (word_html msg i v a))"
  by (force simp: word_html_def cell_id_def Let_def)

lemma memory_loop_ok:
  assumes p: "0 < mm_ptrsize msg" and "plain_pmaps w"
  shows "\<exists>h cells w'. memory_loop msg i w = Some (Inr (h, cells), w')
    \<and> (\<forall>k. i + k * mm_ptrsize msg < mm_len msg \<longrightarrow> cell_id msg (i + k * mm_ptrsize msg) \<in> fst ` set cells)"
  using assms(2)
proof (induction "mm_len msg - i" arbitrary: i w rule: less_induct)
  case less
  show ?case
  proof (cases "i < mm_len msg")
    case False
    then show ?thesis by (subst memory_loop.simps) simp
  next
    case True
    define v where "v = mem_word msg i"
    obtain a w1 where g: "get_data_type (VStr v) False w = (Inr a, w1)" "plain_pmaps w1"
      using get_data_type_ok [OF less.prems, of v] by blast
    obtain h1 c1 where wh: "word_html msg i v a = (h1, c1)" by fastforce
    let ?n = "mm_ptrsize msg"
    have "mm_len msg - (i + ?n) < mm_len msg - i" using True p by simp
    from less.hyps [OF this g(2)] obtain h cells w' where
      r: "memory_loop msg (i + ?n) w1 = Some (Inr (h, cells), w')"
        "\<forall>k. i + ?n + k * ?n < mm_len msg \<longrightarrow> cell_id msg (i + ?n + k * ?n) \<in> fst ` set cells" by blast
    have here: "cell_id msg i \<in> fst ` set c1" using word_html_cell [OF p, of i v a] wh by simp
    have all: "cell_id msg (i + k * ?n) \<in> fst ` set (c1 @ cells)" if "i + k * ?n < mm_len msg" for k
    proof (cases k)
      case 0
      with here show ?thesis by auto
    next
      case (Suc m)
      then have "cell_id msg (i + ?n + m * ?n) \<in> fst ` set cells" using r(2) that by (simp add: add.assoc)
      then show ?thesis using Suc by (auto simp: add.assoc)
    qed
    have "\<exists>hh. memory_loop msg i w = Some (Inr (hh, c1 @ cells), w')"
      using True g(1) wh r(1) by (subst memory_loop.simps) (simp add: Let_def flip: v_def)
    with all show ?thesis by blast
  qed
qed

lemma rehighlight_mem_cells [simp]: "mem_cells (rehighlight w) = mem_cells w"
  by (simp add: rehighlight_def Let_def split_beta)

lemma replace_names_mem_cells [simp]: "mem_cells (replace_names w) = mem_cells w"
  by (simp add: replace_names_def Let_def emit_def)

lemma redraw_reg_flags_mem_cells [simp]: "mem_cells (redraw_reg_flags w) = mem_cells w"
proof -
  have f: "mem_cells (reg_flag r w) = mem_cells w" for r w
    by (simp add: reg_flag_def Let_def split: option.splits)
  have "mem_cells (fold reg_flag rs w) = mem_cells w" for rs w
    by (induction rs arbitrary: w) (simp_all add: f)
  then show ?thesis by (simp add: redraw_reg_flags_def Let_def split: option.splits)
qed

lemma on_memory_ok:
  assumes "0 < mm_ptrsize msg" and "plain_pmaps w" and "mtrack w = None"
  shows "snd (on_memory msg w) = None
    \<and> (\<forall>k. k * mm_ptrsize msg < mm_len msg \<longrightarrow> cell_id msg (k * mm_ptrsize msg) \<in> fst ` set (mem_cells (fst (on_memory msg w))))"
proof -
  obtain h cells w' where m: "memory_loop msg 0 w = Some (Inr (h, cells), w')"
    "\<forall>k. 0 + k * mm_ptrsize msg < mm_len msg \<longrightarrow> cell_id msg (0 + k * mm_ptrsize msg) \<in> fst ` set cells"
    using memory_loop_ok [OF assms(1,2), of 0] by blast
  then show ?thesis using assms(3) by (simp add: on_memory_def Let_def set_dom_def)
qed

end
