(* ===== verification/Idump.thy ===== *)
theory Idump
  imports Highlight
begin

text \<open>
  \<open>web/client/idump.js\<close> and \<open>web/client/ida.js\<close>: the list of executed instructions around the
  selected change, and the WebSocket that keeps a running IDA on the selected address.
\<close>

section \<open>Instructions (idump.js)\<close>

definition on_arch :: "string option list \<times> jsnum \<Rightarrow> world \<Rightarrow> world" where
  "on_arch msg w = w\<lparr>arch := Some msg\<rparr>"

record dins =
  di_clnum :: jsnum
  di_address :: string
  di_instruction :: "string option"
  di_comment :: "string option"
  di_depth :: jsnum
  di_slice :: bool

definition dins_html :: "dins \<Rightarrow> string \<Rightarrow> string" where
  "dins_html i desc = ''<div class='' @ dq @ ''instruction'' @ dq @ '' style='' @ dq @ ''margin-left: ''
     @ num_to_string 10 (js_mul (di_depth i) (ji 10)) @ ''px'' @ dq @ ''><div class='' @ dq @ ''change ''
     @ (if di_slice i then ''halfhighlight'' else []) @ '' clnum clnum_'' @ num_to_string 10 (di_clnum i) @ dq @ ''>''
     @ num_to_string 10 (di_clnum i) @ ''</div> <span class='' @ dq @ ''insaddr datainstruction addr addr_'' @ di_address i
     @ dq @ ''>'' @ di_address i @ ''</span> <div class='' @ dq @ ''instructiondesc'' @ dq @ ''>'' @ desc
     @ ''</div> <span class='' @ dq @ ''comment comment_'' @ di_address i @ dq @ ''>''
     @ (case di_comment i of Some c \<Rightarrow> ''; '' @ c | None \<Rightarrow> []) @ ''</span></div>''"

text \<open>
  The loop: the instruction of the selected change also becomes the selected address. (Setting a
  missing \<open>name\<close> of the message object to the empty string has no effect elsewhere.)
\<close>

fun instructions_loop :: "sval option \<Rightarrow> dins list \<Rightarrow> (js_error + string) handler" where
  "instructions_loop clnum [] w = (Inr [], w)"
| "instructions_loop clnum (i # is) w =
     (let w = (if clnum = Some (VNum (di_clnum i)) \<and> di_clnum i \<noteq> NaN
               then session_set ''iview'' (Some (VStr (di_address i))) (session_set ''iaddr'' (Some (VStr (di_address i))) w)
               else w)
      in case highlight_instruction (di_instruction i) True w of
           (Inl e, w) \<Rightarrow> (Inl e, w)
         | (Inr d, w) \<Rightarrow>
             (case instructions_loop clnum is w of
                (Inl e, w) \<Rightarrow> (Inl e, w)
              | (Inr rest, w) \<Rightarrow> (Inr (dins_html i d @ rest), w)))"

definition on_instructions :: "dins list \<Rightarrow> world \<Rightarrow> world \<times> js_error option" where
  "on_instructions msg w =
     (let (clnum, w) = session_get ''clnum'' False w in
      case instructions_loop clnum msg w of
        (Inl e, w) \<Rightarrow> (w, Some e)
      | (Inr idump, w) \<Rightarrow> (replace_names (rehighlight (set_dom ''idump'' idump w)), None))"

definition autorun_getinstructions :: "world \<Rightarrow> world \<times> js_error option" where
  "autorun_getinstructions w =
     (let (forknum, w) = session_get ''forknum'' False w;
          (clnum, w) = session_get ''clnum'' False w
      in (emit ''getinstructions'' [forknum, clnum, Some (VNum (js_sub (num_of clnum) (ji 8))),
            Some (VNum (js_add (num_of clnum) (ji 16)))] w, None))"

section \<open>The socket to IDA (ida.js)\<close>

text \<open>
  \<open>ws.send\<close> inside of its \<open>try\<close>: it delivers on an open socket, raises an exception on a
  connecting one, which is caught, and drops the data on one that is closing or closed.
\<close>

definition ws_send :: "string \<Rightarrow> world \<Rightarrow> world" where
  "ws_send cmd w = (if ws_st w = WS_Open then w\<lparr>ws_sent := ws_sent w @ [cmd]\<rparr> else w)"

text \<open>\<open>do_ida_socket(callme)\<close>, where \<open>callme\<close> sends \<open>cmd\<close>; a new socket calls it once it is open.\<close>

definition do_ida_socket :: "string \<Rightarrow> world \<Rightarrow> world" where
  "do_ida_socket cmd w =
     (if ws_st w = WS_Undefined \<or> ws_st w = WS_Closed
      then w\<lparr>ws_st := WS_Connecting, ws_onopen := Some cmd\<rparr>
      else ws_send cmd w)"

definition autorun_setaddress_ida :: "world \<Rightarrow> world \<times> js_error option" where
  "autorun_setaddress_ida w =
     (let (iaddr, w) = session_get ''iaddr'' False w in (do_ida_socket (''setaddress '' @ prop_key iaddr) w, None))"

text \<open>The events of the socket.\<close>

definition ws_open :: "world \<Rightarrow> world" where
  "ws_open w = (if ws_st w = WS_Connecting then
     let w = w\<lparr>ws_st := WS_Open\<rparr> in case ws_onopen w of Some cmd \<Rightarrow> ws_send cmd w | None \<Rightarrow> w else w)"

definition ws_close :: "world \<Rightarrow> world" where
  "ws_close w = (if ws_st w = WS_Undefined then w else w\<lparr>ws_st := WS_Closed\<rparr>)"

definition ws_onmessage :: "string \<Rightarrow> world \<Rightarrow> world \<times> js_error option" where
  "ws_onmessage data w =
     (let dat = js_split CHR '' '' data; arg = (if 1 < length dat then Some (dat ! 1) else None);
          w = (if hd dat = ''setiaddr''
               then session_set ''dirtyiaddr'' (Some (VBool True)) (session_set ''iaddr'' (map_option VStr arg) w) else w)
      in if hd dat = ''setdaddr'' then
           (case arg of
              None \<Rightarrow> (snd (session_get ''pmaps'' False w), Some (TypeError ''length of undefined''))
            | Some a \<Rightarrow>
                (case get_data_type (VStr a) False w of
                   (Inl e, w) \<Rightarrow> (w, Some e)
                 | (Inr cl, w) \<Rightarrow> if cl \<noteq> ''datainstruction'' then update_dview (Some a) w else (w, None)))
         else (w, None))"

section \<open>What IDA gets to see\<close>

text \<open>On an open socket every change of the address is sent at once.\<close>

lemma setaddress_open:
  assumes "mtrack w = None" and "ws_st w = WS_Open"
  shows "ws_sent (fst (autorun_setaddress_ida w)) = ws_sent w @ [''setaddress '' @ prop_key (msession w ''iaddr'')]
    \<and> ws_st (fst (autorun_setaddress_ida w)) = WS_Open"
  using assms by (simp add: autorun_setaddress_ida_def do_ida_socket_def ws_send_def)

text \<open>
  While the socket is connecting, an address is dropped: when it opens, the address of the time of
  the connection attempt is sent, not the current one.
\<close>

lemma setaddress_connecting:
  assumes idle: "mtrack w = None" and st: "ws_st w = WS_Connecting" "ws_onopen w = Some cmd"
  shows "fst (autorun_setaddress_ida w) = w \<and> ws_sent (ws_open w) = ws_sent w @ [cmd]"
  using assms by (simp add: autorun_setaddress_ida_def do_ida_socket_def ws_send_def ws_open_def)

text \<open>A connection from its opening on: of the commands before the socket is open, the first is sent and
  the others are lost; afterwards every command is sent, in order.\<close>

lemma ida_connecting: "ws_st w = WS_Connecting \<Longrightarrow> fold do_ida_socket cs w = w"
  by (induction cs) (simp_all add: do_ida_socket_def ws_send_def)

lemma ida_open: "ws_st w = WS_Open \<Longrightarrow> fold do_ida_socket cs w = w\<lparr>ws_sent := ws_sent w @ cs\<rparr>"
  by (induction cs arbitrary: w) (simp_all add: do_ida_socket_def ws_send_def)

lemma ida_connection:
  assumes "ws_st w = WS_Undefined \<or> ws_st w = WS_Closed"
  shows "ws_sent (fold do_ida_socket cs (do_ida_socket c w)) = ws_sent w
    \<and> ws_st (ws_open (fold do_ida_socket cs (do_ida_socket c w))) = WS_Open
    \<and> ws_sent (fold do_ida_socket ds (ws_open (fold do_ida_socket cs (do_ida_socket c w)))) = ws_sent w @ c # ds"
proof -
  have c: "do_ida_socket c w = w\<lparr>ws_st := WS_Connecting, ws_onopen := Some c\<rparr>"
    using assms by (auto simp: do_ida_socket_def)
  then have "fold do_ida_socket cs (do_ida_socket c w) = w\<lparr>ws_st := WS_Connecting, ws_onopen := Some c\<rparr>"
    by (simp add: ida_connecting)
  then show ?thesis by (simp add: ws_open_def ws_send_def ida_open)
qed

text \<open>The instruction of the selected change becomes the selected address, and no other one does.\<close>

lemma instructions_loop_others:
  assumes "\<forall>i \<in> set is. clnum \<noteq> Some (VNum (di_clnum i))"
  shows "msession (snd (instructions_loop clnum is w)) = msession w"
  using assms
proof (induction "is" arbitrary: w)
  case (Cons i "is")
  obtain r w1 where h: "highlight_instruction (di_instruction i) True w = (r, w1)" by fastforce
  then have "msession w1 = msession w" using highlight_session [of "di_instruction i" True w] by simp
  moreover have "msession (snd (instructions_loop clnum is w1)) = msession w1" using Cons by simp
  moreover have "snd (instructions_loop clnum (i # is) w)
      = (case r of Inl e \<Rightarrow> w1 | Inr d \<Rightarrow> snd (instructions_loop clnum is w1))"
    using h Cons.prems by (cases r) (auto simp: Let_def split: sum.splits prod.splits)
  ultimately show ?case by (cases r) simp_all
qed simp

lemma instructions_loop_selects:
  assumes "di_clnum i = ji c" and "\<forall>j \<in> set is. di_clnum j \<noteq> ji c"
  shows "msession (snd (instructions_loop (Some (VNum (ji c))) (i # is) w))
    = (msession w)(''iaddr'' \<mapsto> VStr (di_address i), ''iview'' \<mapsto> VStr (di_address i))"
proof -
  let ?w = "session_set ''iview'' (Some (VStr (di_address i))) (session_set ''iaddr'' (Some (VStr (di_address i))) w)"
  obtain r w1 where h: "highlight_instruction (di_instruction i) True ?w = (r, w1)" by fastforce
  then have 1: "msession w1 = msession ?w" using highlight_session [of "di_instruction i" True ?w] by simp
  have 2: "msession (snd (instructions_loop (Some (VNum (ji c))) is w1)) = msession w1"
    using assms(2) by (intro instructions_loop_others) auto
  have n: "ji c \<noteq> NaN" by (simp add: ji_def)
  have "snd (instructions_loop (Some (VNum (ji c))) (i # is) w)
      = (case r of Inl e \<Rightarrow> w1 | Inr d \<Rightarrow> snd (instructions_loop (Some (VNum (ji c))) is w1))"
    using h n assms(1) by (cases r) (auto simp: Let_def split: sum.splits prod.splits)
  then show ?thesis using 1 2 by (cases r) simp_all
qed

lemma instructions_loop_append:
  "instructions_loop clnum (is @ js) w =
    (case instructions_loop clnum is w of
       (Inl e, w) \<Rightarrow> (Inl e, w)
     | (Inr a, w) \<Rightarrow> (case instructions_loop clnum js w of (Inl e, w) \<Rightarrow> (Inl e, w) | (Inr b, w) \<Rightarrow> (Inr (a @ b), w)))"
proof (induction "is" arbitrary: w)
  case (Cons i "is")
  define v where "v = (if clnum = Some (VNum (di_clnum i)) \<and> di_clnum i \<noteq> NaN
      then session_set ''iview'' (Some (VStr (di_address i))) (session_set ''iaddr'' (Some (VStr (di_address i))) w) else w)"
  have eq: "instructions_loop clnum (i # xs) w = (case highlight_instruction (di_instruction i) True v of
        (Inl e, w) \<Rightarrow> (Inl e, w)
      | (Inr d, w) \<Rightarrow> (case instructions_loop clnum xs w of
                       (Inl e, w) \<Rightarrow> (Inl e, w) | (Inr rest, w) \<Rightarrow> (Inr (dins_html i d @ rest), w)))" for xs
    unfolding v_def by (simp only: instructions_loop.simps Let_def)
  show ?case
    unfolding append_Cons eq Cons.IH by (simp split: prod.split sum.split)
qed (simp split: prod.splits sum.splits)

text \<open>
  If the message is shown without an exception and exactly one of its instructions is the one of the
  selected change, that one is the selected address afterwards and the page has been drawn.
\<close>

lemma on_instructions_selects:
  assumes clnum: "msession w ''clnum'' = Some (VNum (ji c))" and i: "di_clnum i = ji c"
    and others: "\<forall>j \<in> set before \<union> set after. di_clnum j \<noteq> ji c"
    and ok: "snd (on_instructions (before @ i # after) w) = None"
  shows "msession (fst (on_instructions (before @ i # after) w))
    = (msession w)(''iaddr'' \<mapsto> VStr (di_address i), ''iview'' \<mapsto> VStr (di_address i))"
proof -
  let ?c = "Some (VNum (ji c))"
  define v where "v = snd (session_get ''clnum'' False w)"
  have get: "session_get ''clnum'' False w = (?c, v)" using clnum by (simp add: v_def prod_eq_iff)
  have v: "msession v = msession w" by (simp add: v_def)
  obtain r1 w1 where l1: "instructions_loop ?c before v = (r1, w1)" by fastforce
  have 1: "msession w1 = msession w"
    using instructions_loop_others [of before ?c v] others l1 v by (metis (no_types) option.inject snd_conv sval.inject(1) UnI1)
  have "\<exists>a. r1 = Inr a"
    using ok by (cases r1) (simp_all add: on_instructions_def get instructions_loop_append l1)
  then obtain a where r1: "r1 = Inr a" ..
  obtain r2 w2 where l2: "instructions_loop ?c (i # after) w1 = (r2, w2)" by fastforce
  have 2: "msession w2 = (msession w)(''iaddr'' \<mapsto> VStr (di_address i), ''iview'' \<mapsto> VStr (di_address i))"
    using instructions_loop_selects [OF i, of after w1] others l2 1 by auto
  have l: "instructions_loop ?c (before @ i # after) v
      = (case r2 of Inl e \<Rightarrow> (Inl e, w2) | Inr b \<Rightarrow> (Inr (a @ b), w2))"
    by (simp only: instructions_loop_append l1 l2 r1 prod.case sum.case)
  have e: "msession (replace_names (rehighlight (set_dom ''idump'' x w2))) = msession w2" for x
    by (rule engineD(3)) simp
  show ?thesis
    using 2 e by (cases r2) (simp_all add: on_instructions_def get l)
qed

end
