(* ===== verification/Graph.thy ===== *)
theory Graph
  imports Bignum
begin

text \<open>
  \<open>web/client/static/graph.js\<close>: the control flow graph of the static view. Vertices are the first
  addresses of basic blocks; each keeps the list of its parents and children beside the list of
  edges. \<open>assignLevels\<close> lays the vertices out in levels from the sinks upwards.
\<close>

section \<open>State\<close>

record vertex =
  v_parents :: "string list"
  v_children :: "string list"
  v_level :: "nat option"
  v_len :: "nat option"
  v_rendered :: "string option"  \<comment> \<open>the markup of the block\<close>

record edge =
  e_from :: string
  e_to :: string
  e_color :: string
  e_reversed :: bool

record graph =
  vertices :: "(string \<times> vertex) list"
  edges :: "edge list"
  levels :: "string list list"

definition new_graph :: graph where
  "new_graph = \<lparr>vertices = [], edges = [], levels = []\<rparr>"

section \<open>Building\<close>

definition new_vertex :: vertex where
  "new_vertex = \<lparr>v_parents = [], v_children = [], v_level = None, v_len = None, v_rendered = None\<rparr>"

text \<open>\<open>this.vertices[a]\<close> where the vertex exists, and an update of its fields.\<close>

definition vtx :: "(string \<times> vertex) list \<Rightarrow> string \<Rightarrow> vertex" where
  "vtx vs a = (case map_of vs a of Some v \<Rightarrow> v | None \<Rightarrow> new_vertex)"

definition upd_vtx :: "string \<Rightarrow> (vertex \<Rightarrow> vertex) \<Rightarrow> (string \<times> vertex) list \<Rightarrow> (string \<times> vertex) list" where
  "upd_vtx a f vs = obj_put a (f (vtx vs a)) vs"

definition addVertex :: "string \<Rightarrow> (nat \<times> string) option \<Rightarrow> graph \<Rightarrow> graph" where
  "addVertex addr info g =
     (let vs = (if map_of (vertices g) addr = None then obj_put addr new_vertex (vertices g) else vertices g);
          vs = (case info of None \<Rightarrow> vs
                | Some (vlen, markup) \<Rightarrow> upd_vtx addr (\<lambda>v. v\<lparr>v_len := Some vlen, v_rendered := Some markup\<rparr>) vs)
      in g\<lparr>vertices := vs\<rparr>)"

definition addEdge :: "string \<Rightarrow> string \<Rightarrow> string \<Rightarrow> graph \<Rightarrow> graph" where
  "addEdge v1 v2 color g =
     (let g = addVertex v2 None (addVertex v1 None g);
          g = g\<lparr>edges := edges g @ [\<lparr>e_from = v1, e_to = v2, e_color = color, e_reversed = False\<rparr>]\<rparr>;
          g = g\<lparr>vertices := upd_vtx v1 (\<lambda>v. v\<lparr>v_children := v_children v @ [v2]\<rparr>) (vertices g)\<rparr>
      in g\<lparr>vertices := upd_vtx v2 (\<lambda>v. v\<lparr>v_parents := v_parents v @ [v1]\<rparr>) (vertices g)\<rparr>)"

text \<open>
  \<open>xs.splice(xs.indexOf(x), 1)\<close>: for an absent element the index is \<open>-1\<close>, which removes the last
  one.
\<close>

definition splice_found :: "'a \<Rightarrow> 'a list \<Rightarrow> 'a list" where
  "splice_found x xs = (case index_of x xs of Some i \<Rightarrow> splice1 i xs | None \<Rightarrow> butlast xs)"

definition reverseEdge :: "nat \<Rightarrow> graph \<Rightarrow> js_error + graph" where
  "reverseEdge edgenum g =
     (if length (edges g) \<le> edgenum then Inl (TypeError ''edge is undefined'') else
      let e = edges g ! edgenum; v1 = e_from e; v2 = e_to e in
      if map_of (vertices g) v1 = None \<or> map_of (vertices g) v2 = None then Inl (TypeError ''vertex is undefined'') else
      let vs = upd_vtx v1 (\<lambda>v. v\<lparr>v_children := splice_found v2 (v_children v)\<rparr>) (vertices g);
          vs = upd_vtx v2 (\<lambda>v. v\<lparr>v_parents := splice_found v1 (v_parents v)\<rparr>) vs;
          es = (edges g)[edgenum := e\<lparr>e_from := v2, e_to := v1, e_reversed := True\<rparr>];
          vs = upd_vtx v2 (\<lambda>v. v\<lparr>v_children := v_children v @ [v1]\<rparr>) vs;
          vs = upd_vtx v1 (\<lambda>v. v\<lparr>v_parents := v_parents v @ [v2]\<rparr>) vs
      in Inr (g\<lparr>vertices := vs, edges := es\<rparr>))"

section \<open>Levels\<close>

text \<open>
  One pass of the outer loop works on the vertices, the next level and the list of removals. The
  two functions are the loops over the parents of a vertex and over the vertices of a level.
\<close>

type_synonym pass = "(string \<times> vertex) list \<times> string list \<times> (string \<times> nat) list"

fun parents_loop :: "nat \<Rightarrow> string \<Rightarrow> string list \<Rightarrow> pass \<Rightarrow> js_error + pass" where
  "parents_loop onlevel addr [] st = Inr st"
| "parents_loop onlevel addr (paddr # ps) (vs, nxt, rm) =
     (if paddr = addr then parents_loop onlevel addr ps (vs, nxt, rm) else
      case map_of vs paddr of
        None \<Rightarrow> Inl (TypeError ''vertex is undefined'')
      | Some pv \<Rightarrow>
          (case v_level pv of
             None \<Rightarrow> parents_loop onlevel addr ps
               (obj_put paddr (pv\<lparr>v_level := Some (onlevel + 1)\<rparr>) vs, nxt @ [paddr], rm)
           | Some l \<Rightarrow>
               if js_lt (ji 0) (bn_cmp paddr addr) then parents_loop onlevel addr ps (vs, nxt, rm)
               else parents_loop onlevel addr ps
                 (obj_put paddr (pv\<lparr>v_level := Some (onlevel + 1)\<rparr>) vs, nxt @ [paddr], rm @ [(paddr, l)])))"

fun level_loop :: "nat \<Rightarrow> string list \<Rightarrow> pass \<Rightarrow> js_error + pass" where
  "level_loop onlevel [] st = Inr st"
| "level_loop onlevel (addr # as) (vs, nxt, rm) =
     (case map_of vs addr of
        None \<Rightarrow> Inl (TypeError ''vertex is undefined'')
      | Some v \<Rightarrow>
          (case parents_loop onlevel addr (v_parents v) (vs, nxt, rm) of
             Inl e \<Rightarrow> Inl e
           | Inr st \<Rightarrow> level_loop onlevel as st))"

definition remove_one :: "string \<times> nat \<Rightarrow> string list list \<Rightarrow> string list list" where
  "remove_one r lvls = lvls[snd r := splice_found (fst r) (lvls ! snd r)]"

function levels_loop :: "nat \<Rightarrow> (string \<times> vertex) list \<Rightarrow> string list list
    \<Rightarrow> js_error + (string \<times> vertex) list \<times> string list list" where
  "levels_loop onlevel vs lvls =
     (if lvls ! onlevel \<noteq> [] \<and> \<not> 100 < onlevel then
        (case level_loop onlevel (lvls ! onlevel) (vs, [], []) of
           Inl e \<Rightarrow> Inl e
         | Inr (vs', nxt, rm) \<Rightarrow> levels_loop (onlevel + 1) vs' (fold remove_one rm (lvls @ [nxt])))
      else Inr (vs, lvls))"
  by pat_completeness auto
termination
  by (relation "measure (\<lambda>(onlevel, vs, lvls). 101 - onlevel)") auto

declare levels_loop.simps [simp del]

definition sinks :: "(string \<times> vertex) list \<Rightarrow> string list" where
  "sinks vs = map fst (filter (\<lambda>(a, v). v_children v = []) vs)"

definition sink_levels :: "(string \<times> vertex) list \<Rightarrow> (string \<times> vertex) list" where
  "sink_levels vs = map (\<lambda>(a, v). (a, if v_children v = [] then v\<lparr>v_level := Some 0\<rparr> else v)) vs"

definition assignLevels :: "graph \<Rightarrow> js_error + graph" where
  "assignLevels g =
     (case levels_loop 0 (sink_levels (vertices g)) [sinks (vertices g)] of
        Inl e \<Rightarrow> Inl e
      | Inr (vs, lvls) \<Rightarrow> Inr (g\<lparr>vertices := vs, levels := butlast lvls\<rparr>))"

section \<open>Lineage\<close>

text \<open>
  \<open>inLineage\<close> calls the identifier \<open>inLineage\<close>, which is bound nowhere: a parent that is
  neither the vertex itself nor already seen raises an exception.
\<close>

fun lineage_loop :: "string \<Rightarrow> string list \<Rightarrow> string list \<Rightarrow> js_error + bool" where
  "lineage_loop addr [] seen = Inr False"
| "lineage_loop addr (taddr # ts) seen =
     (if taddr = addr then Inr True
      else if taddr \<in> set seen then Inr False
      else Inl (ReferenceError ''inLineage''))"

definition inLineage :: "string \<Rightarrow> string \<Rightarrow> string list option \<Rightarrow> graph \<Rightarrow> js_error + bool" where
  "inLineage addr qaddr seen g =
     (case map_of (vertices g) addr of
        None \<Rightarrow> Inl (TypeError ''vertex is undefined'')
      | Some v \<Rightarrow> lineage_loop addr (v_parents v) (case seen of None \<Rightarrow> [] | Some s \<Rightarrow> s))"

section \<open>The request to the layout service\<close>

text \<open>
  \<open>render\<close> first sends the graph to the server as a program for \<open>dot\<close>, one statement per
  rendered vertex (its size in inches, from its size in pixels on the page) and one per edge.
\<close>

datatype dot_stmt =
    Dot_Node string jsnum jsnum
  | Dot_Edge string string string

definition dot_request :: "(string \<Rightarrow> jsnum \<times> jsnum) \<Rightarrow> graph \<Rightarrow> dot_stmt list" where
  "dot_request dims g =
     List.map_filter (\<lambda>(a, v). case v_rendered v of None \<Rightarrow> None
       | Some r \<Rightarrow> Some (Dot_Node a (js_div (js_mul (fst (dims r)) (ji 1)) (ji 72))
                                   (js_div (js_mul (snd (dims r)) (ji 1)) (ji 72)))) (vertices g)
     @ map (\<lambda>e. Dot_Edge (e_from e) (e_to e) (e_color e)) (edges g)"

section \<open>Adjacency lists and edges agree\<close>

definition cnt_edges :: "string \<Rightarrow> string \<Rightarrow> edge list \<Rightarrow> nat" where
  "cnt_edges a b es = count_list (map (\<lambda>e. (e_from e, e_to e)) es) (a, b)"

definition ginv :: "graph \<Rightarrow> bool" where
  "ginv g \<longleftrightarrow> distinct (map fst (vertices g))
     \<and> (\<forall>e \<in> set (edges g). e_from e \<in> fst ` set (vertices g) \<and> e_to e \<in> fst ` set (vertices g))
     \<and> (\<forall>a b. count_list (v_children (vtx (vertices g) a)) b = cnt_edges a b (edges g))
     \<and> (\<forall>a b. count_list (v_parents (vtx (vertices g) b)) a = cnt_edges a b (edges g))"

lemma vtx_obj_put [simp]: "vtx (obj_put a v vs) b = (if b = a then v else vtx vs b)"
  by (simp add: vtx_def)

lemma vtx_upd [simp]: "vtx (upd_vtx a f vs) b = (if b = a then f (vtx vs a) else vtx vs b)"
  by (simp add: upd_vtx_def)

lemma keys_upd_vtx [simp]: "fst ` set (upd_vtx a f vs) = insert a (fst ` set vs)"
  by (simp add: upd_vtx_def keys_obj_put)

lemma distinct_upd_vtx: "distinct (map fst vs) \<Longrightarrow> distinct (map fst (upd_vtx a f vs))"
  by (simp add: upd_vtx_def distinct_obj_put)

lemma new_vertex_lists [simp]: "v_children new_vertex = []" "v_parents new_vertex = []" "v_level new_vertex = None"
  by (simp_all add: new_vertex_def)

lemma vtx_absent: "map_of vs a = None \<Longrightarrow> vtx vs a = new_vertex"
  by (simp add: vtx_def)

lemma ginv_new: "ginv new_graph"
  by (simp add: ginv_def new_graph_def vtx_def cnt_edges_def)

lemma addVertex_vertices:
  "v_children (vtx (vertices (addVertex a i g)) b) = v_children (vtx (vertices g) b)"
  "v_parents (vtx (vertices (addVertex a i g)) b) = v_parents (vtx (vertices g) b)"
  "edges (addVertex a i g) = edges g" "levels (addVertex a i g) = levels g"
  "fst ` set (vertices (addVertex a i g)) = insert a (fst ` set (vertices g))"
  by (auto simp: addVertex_def Let_def vtx_absent keys_obj_put map_of_eq_None_iff image_iff split: option.splits) 

lemma addVertex_distinct: "distinct (map fst (vertices g)) \<Longrightarrow> distinct (map fst (vertices (addVertex a i g)))"
  by (auto simp: addVertex_def Let_def distinct_upd_vtx distinct_obj_put split: option.splits)

lemma addVertex_ginv: "ginv g \<Longrightarrow> ginv (addVertex a i g)"
  by (auto simp: ginv_def addVertex_vertices addVertex_distinct)

lemma cnt_edges_append: "cnt_edges a b (es @ [e]) = cnt_edges a b es + (if e_from e = a \<and> e_to e = b then 1 else 0)"
  by (auto simp: cnt_edges_def)

lemma addEdge_ginv:
  assumes "ginv g"
  shows "ginv (addEdge v1 v2 c g)"
proof -
  let ?g = "addVertex v2 None (addVertex v1 None g)"
  have g: "ginv ?g" using assms by (intro addVertex_ginv)
  show ?thesis
    using g unfolding ginv_def addEdge_def Let_def
    by (auto simp: cnt_edges_append addVertex_vertices distinct_upd_vtx)
qed

lemma count_list_remove1: "x \<in> set xs \<Longrightarrow> count_list (remove1 x xs) y = count_list xs y - (if y = x then 1 else 0)"
  by (induction xs) (auto simp: count_list_0_iff split: if_splits)

lemma count_list_pos: "0 < count_list xs x \<longleftrightarrow> x \<in> set xs"
  by (metis count_list_0_iff not_gr_zero)

lemma splice_found_present: "x \<in> set xs \<Longrightarrow> splice_found x xs = remove1 x xs"
  by (auto simp: splice_found_def splice1_index_of simp del: index_of_None dest: index_of_mem)

lemma count_splice_found: "x \<in> set xs \<Longrightarrow>
    count_list (splice_found x xs) y + (if y = x then 1 else 0) = count_list xs y"
  using count_list_pos [of xs x] by (auto simp: splice_found_present count_list_remove1)

lemma count_list_update: "k < length xs \<Longrightarrow>
    count_list (xs[k := x]) y + (if xs ! k = y then 1 else 0) = count_list xs y + (if x = y then 1 else 0)"
proof (induction xs arbitrary: k)
  case (Cons z xs)
  show ?case
  proof (cases k)
    case (Suc j)
    with Cons.prems have "j < length xs" by simp
    from Cons.IH [OF this] Suc show ?thesis by (cases "x = y"; cases "xs ! j = y") simp_all
  qed simp
qed simp

lemma count_moved:
  assumes "count_list S b + (if b = v2 then 1 else 0) = count_list (X v1) b"
  shows "count_list ((if a = v1 then S else X a) @ (if a = v2 then [v1] else [])) b + (if v1 = a \<and> v2 = b then 1 else 0)
    = count_list (X a) b + (if v2 = a \<and> v1 = b then 1 else 0)"
proof (cases "a = v1")
  case True
  show ?thesis unfolding True using assms by (cases "b = v2"; cases "v1 = v2"; cases "b = v1") simp_all
next
  case False
  then show ?thesis by (cases "a = v2"; cases "b = v1") simp_all
qed

lemma cnt_edges_update: "k < length es \<Longrightarrow>
    cnt_edges a b (es[k := e]) + (if e_from (es ! k) = a \<and> e_to (es ! k) = b then 1 else 0)
      = cnt_edges a b es + (if e_from e = a \<and> e_to e = b then 1 else 0)"
  using count_list_update [of k "map (\<lambda>e. (e_from e, e_to e)) es" "(e_from e, e_to e)" "(a, b)"]
  by (auto simp: cnt_edges_def map_update)

lemma cnt_edges_nth: "k < length es \<Longrightarrow> 0 < cnt_edges (e_from (es ! k)) (e_to (es ! k)) es"
  unfolding cnt_edges_def by (force simp: count_list_pos)

lemma reverseEdge_ginv:
  assumes g: "ginv g" and k: "k < length (edges g)"
  shows "\<exists>g'. reverseEdge k g = Inr g' \<and> ginv g' \<and> length (edges g') = length (edges g)
    \<and> edges g' ! k = (edges g ! k)\<lparr>e_from := e_to (edges g ! k), e_to := e_from (edges g ! k), e_reversed := True\<rparr>"
proof -
  define e v1 v2 where "e = edges g ! k" and "v1 = e_from e" and "v2 = e_to e"
  define e' where "e' = e\<lparr>e_from := v2, e_to := v1, e_reversed := True\<rparr>"
  define vs where "vs = upd_vtx v1 (\<lambda>v. v\<lparr>v_parents := v_parents v @ [v2]\<rparr>)
    (upd_vtx v2 (\<lambda>v. v\<lparr>v_children := v_children v @ [v1]\<rparr>)
    (upd_vtx v2 (\<lambda>v. v\<lparr>v_parents := splice_found v1 (v_parents v)\<rparr>)
    (upd_vtx v1 (\<lambda>v. v\<lparr>v_children := splice_found v2 (v_children v)\<rparr>) (vertices g))))"
  have mem: "v1 \<in> fst ` set (vertices g)" "v2 \<in> fst ` set (vertices g)"
    using g k by (auto simp: ginv_def e_def v1_def v2_def)
  then have ne: "map_of (vertices g) v1 \<noteq> None" "map_of (vertices g) v2 \<noteq> None" by (auto simp: map_of_eq_None_iff)
  have r: "reverseEdge k g = Inr (g\<lparr>vertices := vs, edges := (edges g)[k := e']\<rparr>)"
    using k ne by (simp add: reverseEdge_def Let_def vs_def e'_def flip: e_def v1_def v2_def)
  have ch: "v2 \<in> set (v_children (vtx (vertices g) v1))" and pa: "v1 \<in> set (v_parents (vtx (vertices g) v2))"
    using g cnt_edges_nth [OF k] by (auto simp: ginv_def e_def v1_def v2_def simp flip: count_list_pos)
  have upd: "cnt_edges a b ((edges g)[k := e']) + (if v1 = a \<and> v2 = b then 1 else 0)
      = cnt_edges a b (edges g) + (if v2 = a \<and> v1 = b then 1 else 0)" for a b
    using cnt_edges_update [OF k, of a b e'] by (simp add: e'_def flip: e_def v1_def v2_def)
  have c1: "count_list (v_children (vtx vs a)) b + (if v1 = a \<and> v2 = b then 1 else 0)
      = count_list (v_children (vtx (vertices g) a)) b + (if v2 = a \<and> v1 = b then 1 else 0)" for a b
  proof -
    have "v_children (vtx vs a) = (if a = v1 then splice_found v2 (v_children (vtx (vertices g) v1))
        else v_children (vtx (vertices g) a)) @ (if a = v2 then [v1] else [])"
      by (simp add: vs_def)
    then show ?thesis using count_moved [where X = "\<lambda>a. v_children (vtx (vertices g) a)", OF count_splice_found [OF ch, of b], of a]
      by presburger
  qed
  have p1: "count_list (v_parents (vtx vs b)) a + (if v1 = a \<and> v2 = b then 1 else 0)
      = count_list (v_parents (vtx (vertices g) b)) a + (if v2 = a \<and> v1 = b then 1 else 0)" for a b
  proof -
    have "v_parents (vtx vs b) = (if b = v2 then splice_found v1 (v_parents (vtx (vertices g) v2))
        else v_parents (vtx (vertices g) b)) @ (if b = v1 then [v2] else [])"
      by (simp add: vs_def)
    then show ?thesis using count_moved [where X = "\<lambda>b. v_parents (vtx (vertices g) b)", OF count_splice_found [OF pa, of a], of b]
      by presburger
  qed
  have gc: "count_list (v_children (vtx (vertices g) a)) b = cnt_edges a b (edges g)"
    "count_list (v_parents (vtx (vertices g) b)) a = cnt_edges a b (edges g)" for a b
    using g by (simp_all add: ginv_def)
  have "count_list (v_children (vtx vs a)) b = cnt_edges a b ((edges g)[k := e'])"
    "count_list (v_parents (vtx vs b)) a = cnt_edges a b ((edges g)[k := e'])" for a b
    using upd [of a b] c1 [of a b] p1 [of b a] gc(1) [of a b] gc(2) [of b a] by linarith+
  moreover have "distinct (map fst vs)" using g by (simp add: vs_def ginv_def distinct_upd_vtx)
  moreover have "\<forall>e \<in> set ((edges g)[k := e']). e_from e \<in> fst ` set vs \<and> e_to e \<in> fst ` set vs"
    using g set_update_subset_insert [of "edges g" k e'] by (auto simp: ginv_def vs_def e'_def)
  ultimately have "ginv (g\<lparr>vertices := vs, edges := (edges g)[k := e']\<rparr>)" by (simp add: ginv_def)
  with r k show ?thesis by (simp add: e'_def v1_def v2_def e_def)
qed

section \<open>Every vertex is on the level it says\<close>

abbreviation lev :: "(string \<times> vertex) list \<Rightarrow> string \<Rightarrow> nat option" where
  "lev vs a \<equiv> v_level (vtx vs a)"

text \<open>
  The bookkeeping of the passes: a vertex occurs in a level list once if that is its level, and
  once more for every pending removal.
\<close>

definition lev_ok :: "(string \<times> vertex) list \<Rightarrow> string list list \<Rightarrow> (string \<times> nat) list \<Rightarrow> bool" where
  "lev_ok vs lvls rm \<longleftrightarrow>
     (\<forall>p l. l < length lvls \<longrightarrow>
        count_list (lvls ! l) p = (if lev vs p = Some l then 1 else 0) + count_list rm (p, l))
     \<and> (\<forall>p l. lev vs p = Some l \<longrightarrow> l < length lvls)
     \<and> (\<forall>p l. (p, l) \<in> set rm \<longrightarrow> l < length lvls)"

lemma lev_ok_mem: "lev_ok vs lvls [] \<Longrightarrow> l < length lvls \<Longrightarrow> a \<in> set (lvls ! l) \<longleftrightarrow> lev vs a = Some l"
  unfolding lev_ok_def by (simp flip: count_list_pos)

text \<open>Removing what is pending.\<close>

lemma remove_all_ok: "lev_ok vs lvls rm \<Longrightarrow> lev_ok vs (fold remove_one rm lvls) [] \<and> length (fold remove_one rm lvls) = length lvls"
proof (induction rm arbitrary: lvls)
  case (Cons r rm)
  obtain p l where r: "r = (p, l)" by (cases r)
  have l: "l < length lvls" using Cons.prems by (auto simp: lev_ok_def r)
  then have "0 < count_list (lvls ! l) p" using Cons.prems by (simp add: lev_ok_def r)
  then have m: "p \<in> set (lvls ! l)" by (simp add: count_list_pos)
  have "count_list (remove_one r lvls ! j) q = (if lev vs q = Some j then 1 else 0) + count_list rm (q, j)"
    if "j < length lvls" for q j
  proof -
    have old: "count_list (lvls ! j) q = (if lev vs q = Some j then 1 else 0) + count_list (r # rm) (q, j)"
      using Cons.prems that unfolding lev_ok_def by blast
    show ?thesis
    proof (cases "j = l")
      case True
      then show ?thesis using old count_splice_found [OF m, of q] l
        by (cases "q = p") (simp_all add: remove_one_def r)
    next
      case False
      then show ?thesis using old by (simp add: remove_one_def r)
    qed
  qed
  moreover have "length (remove_one r lvls) = length lvls" by (simp add: remove_one_def)
  ultimately have "lev_ok vs (remove_one r lvls) rm" using Cons.prems unfolding lev_ok_def by auto
  from Cons.IH [OF this] show ?case by (simp add: remove_one_def)
qed simp

text \<open>What a pass does not change: the keys and the adjacency lists.\<close>

definition shape :: "(string \<times> vertex) list \<Rightarrow> (string \<times> string list \<times> string list) list" where
  "shape vs = map (\<lambda>(a, v). (a, v_parents v, v_children v)) vs"

lemma shape_level: "map_of vs p = Some pv \<Longrightarrow> shape (obj_put p (pv\<lparr>v_level := l\<rparr>) vs) = shape vs"
  by (induction vs) (auto simp: shape_def split: if_splits)

lemma map_of_shape: "map_of (shape vs) a = map_option (\<lambda>v. (v_parents v, v_children v)) (map_of vs a)"
  by (induction vs) (auto simp: shape_def)

lemma shape_parents: "shape vs' = shape vs \<Longrightarrow> v_parents (vtx vs' a) = v_parents (vtx vs a)"
  using map_of_shape [of vs a] map_of_shape [of vs' a] by (auto simp: vtx_def split: option.splits)

lemma shape_keys: "shape vs' = shape vs \<Longrightarrow> map_of vs' a = None \<longleftrightarrow> map_of vs a = None"
  using map_of_shape [of vs a] map_of_shape [of vs' a] by auto

text \<open>Levels only appear or are replaced by the next level.\<close>

definition raised :: "nat \<Rightarrow> (string \<times> vertex) list \<Rightarrow> (string \<times> vertex) list \<Rightarrow> bool" where
  "raised n vs vs' \<longleftrightarrow> shape vs' = shape vs \<and> (\<forall>a. lev vs' a = lev vs a \<or> lev vs' a = Some n)"

lemma raised_refl: "raised n vs vs" by (simp add: raised_def)

lemma raised_trans: "raised n a b \<Longrightarrow> raised n b c \<Longrightarrow> raised n a c"
  unfolding raised_def by metis

lemma raised_assigned: "raised n vs vs' \<Longrightarrow> lev vs a \<noteq> None \<Longrightarrow> lev vs' a \<noteq> None"
  by (metis option.distinct(1) raised_def)

text \<open>What a pass does for a parent \<open>p\<close> of a vertex \<open>a\<close> on level \<open>n\<close>: it has a level, and a greater
  one unless its address is the greater one; later passes keep this.\<close>

definition settled :: "nat \<Rightarrow> string \<Rightarrow> (string \<times> vertex) list \<Rightarrow> string \<Rightarrow> bool" where
  "settled n a vs p \<longleftrightarrow> p = a \<or> (\<exists>k. lev vs p = Some k \<and> (\<not> js_lt (ji 0) (bn_cmp p a) \<longrightarrow> n < k))"

lemma settled_assigned: "settled n a vs p \<Longrightarrow> p \<noteq> a \<Longrightarrow> lev vs p \<noteq> None"
  by (auto simp: settled_def)

lemma raised_settled: "raised (n + 1) vs vs' \<Longrightarrow> l \<le> n \<Longrightarrow> settled l a vs p \<Longrightarrow> settled l a vs' p"
  unfolding raised_def settled_def by (metis Suc_eq_plus1 le_imp_less_Suc)

lemma raised_put: "map_of vs p = Some pv \<Longrightarrow> raised n vs (obj_put p (pv\<lparr>v_level := Some n\<rparr>) vs)"
  by (auto simp: raised_def shape_level)

lemma lev_ok_assign:
  assumes ok: "lev_ok vs (lvls @ [nxt]) rm" and pv: "map_of vs p = Some pv"
    and rm': "rm' = (case v_level pv of None \<Rightarrow> rm | Some l \<Rightarrow> rm @ [(p, l)])"
  shows "lev_ok (obj_put p (pv\<lparr>v_level := Some (length lvls)\<rparr>) vs) (lvls @ [nxt @ [p]]) rm'"
proof -
  have lp: "lev vs p = v_level pv" using pv by (simp add: vtx_def)
  let ?vs = "obj_put p (pv\<lparr>v_level := Some (length lvls)\<rparr>) vs"
  have c: "count_list rm' (q, l) = count_list rm (q, l) + (if q = p \<and> lev vs p = Some l then 1 else 0)" for q l
    unfolding rm' lp by (cases "v_level pv") auto
  have "count_list ((lvls @ [nxt @ [p]]) ! l) q = (if lev ?vs q = Some l then 1 else 0) + count_list rm' (q, l)"
    if l: "l < length (lvls @ [nxt @ [p]])" for q l
  proof -
    have "count_list ((lvls @ [nxt]) ! l) q = (if lev vs q = Some l then 1 else 0) + count_list rm (q, l)"
      using ok l unfolding lev_ok_def by simp
    moreover have "count_list ((lvls @ [nxt @ [p]]) ! l) q
        = count_list ((lvls @ [nxt]) ! l) q + (if q = p \<and> l = length lvls then 1 else 0)"
      using l by (auto simp: nth_append)
    ultimately show ?thesis unfolding c by (cases "q = p"; cases "l = length lvls") simp_all
  qed
  moreover have "l < length (lvls @ [nxt @ [p]])" if "lev ?vs q = Some l" for q l
    using that ok unfolding lev_ok_def by (cases "q = p") auto
  moreover have "l < length (lvls @ [nxt @ [p]])" if "(q, l) \<in> set rm'" for q l
    using that ok lp unfolding rm' lev_ok_def by (cases "v_level pv") auto
  ultimately show ?thesis unfolding lev_ok_def by blast
qed


lemma parents_loop_ok:
  assumes "length lvls = n + 1" and "lev_ok vs (lvls @ [nxt]) rm" and "\<forall>p \<in> set ps. map_of vs p \<noteq> None"
  shows "\<exists>vs' nxt' rm'. parents_loop n addr ps (vs, nxt, rm) = Inr (vs', nxt', rm')
    \<and> lev_ok vs' (lvls @ [nxt']) rm' \<and> raised (n + 1) vs vs'
    \<and> (\<forall>p \<in> set ps. settled n addr vs' p)"
  using assms(2,3)
proof (induction ps arbitrary: vs nxt rm)
  case Nil
  then show ?case by (simp add: raised_refl)
next
  case (Cons p ps)
  from Cons.prems(2) obtain pv where pv: "map_of vs p = Some pv" by auto
  then have lp: "lev vs p = v_level pv" by (simp add: vtx_def)
  have keys: "\<forall>p \<in> set ps. map_of vs p \<noteq> None" using Cons.prems(2) by simp
  show ?case
  proof (cases "p = addr \<or> v_level pv \<noteq> None \<and> js_lt (ji 0) (bn_cmp p addr)")
    case True
    then have "parents_loop n addr (p # ps) (vs, nxt, rm) = parents_loop n addr ps (vs, nxt, rm)"
      using pv by (auto split: option.splits)
    moreover have "settled n addr vs p" using True lp by (auto simp: settled_def)
    ultimately show ?thesis using Cons.IH [OF Cons.prems(1) keys] raised_settled [OF _ order_refl] by fastforce
  next
    case False
    let ?vs = "obj_put p (pv\<lparr>v_level := Some (n + 1)\<rparr>) vs"
    let ?rm = "case v_level pv of None \<Rightarrow> rm | Some l \<Rightarrow> rm @ [(p, l)]"
    have step: "parents_loop n addr (p # ps) (vs, nxt, rm) = parents_loop n addr ps (?vs, nxt @ [p], ?rm)"
      using pv False by (auto split: option.splits)
    have ok: "lev_ok ?vs (lvls @ [nxt @ [p]]) ?rm"
      using lev_ok_assign [OF Cons.prems(1) pv refl] assms(1) by simp
    have r: "raised (n + 1) vs ?vs" using pv by (rule raised_put)
    have "\<forall>q \<in> set ps. map_of ?vs q \<noteq> None" using keys by simp
    from Cons.IH [OF ok this] obtain vs' nxt' rm' where
      i: "parents_loop n addr ps (?vs, nxt @ [p], ?rm) = Inr (vs', nxt', rm')"
        "lev_ok vs' (lvls @ [nxt']) rm'" "raised (n + 1) ?vs vs'" "\<forall>p \<in> set ps. settled n addr vs' p"
      by blast
    have "settled n addr vs' p" using raised_settled [OF i(3) order_refl, of addr p] by (simp add: settled_def)
    with i(4) have "\<forall>q \<in> set (p # ps). settled n addr vs' q" by simp
    with i(1,2) raised_trans [OF r i(3)] show ?thesis unfolding step by blast
  qed
qed

lemma level_loop_ok:
  assumes "length lvls = n + 1" and "lev_ok vs (lvls @ [nxt]) rm"
    and "\<forall>a \<in> set as. map_of vs a \<noteq> None"
    and "\<forall>a. \<forall>p \<in> set (v_parents (vtx vs a)). map_of vs p \<noteq> None"
  shows "\<exists>vs' nxt' rm'. level_loop n as (vs, nxt, rm) = Inr (vs', nxt', rm')
    \<and> lev_ok vs' (lvls @ [nxt']) rm' \<and> raised (n + 1) vs vs'
    \<and> (\<forall>a \<in> set as. \<forall>p \<in> set (v_parents (vtx vs a)). settled n a vs' p)"
  using assms(2-)
proof (induction as arbitrary: vs nxt rm)
  case Nil
  then show ?case by (simp add: raised_refl)
next
  case (Cons a as)
  from Cons.prems(2) obtain v where v: "map_of vs a = Some v" by auto
  then have pa: "v_parents (vtx vs a) = v_parents v" by (simp add: vtx_def)
  from Cons.prems(3) pa have "\<forall>p \<in> set (v_parents v). map_of vs p \<noteq> None" by metis
  from parents_loop_ok [OF assms(1) Cons.prems(1) this, of a] obtain vs1 nxt1 rm1 where
    p: "parents_loop n a (v_parents v) (vs, nxt, rm) = Inr (vs1, nxt1, rm1)" "lev_ok vs1 (lvls @ [nxt1]) rm1"
      "raised (n + 1) vs vs1" "\<forall>p \<in> set (v_parents v). settled n a vs1 p" by blast
  have sh: "shape vs1 = shape vs" using p(3) by (simp add: raised_def)
  note keys = shape_keys [OF sh] and par = shape_parents [OF sh]
  have "\<forall>a \<in> set as. map_of vs1 a \<noteq> None" "\<forall>a. \<forall>p \<in> set (v_parents (vtx vs1 a)). map_of vs1 p \<noteq> None"
    using Cons.prems(2,3) by (simp_all add: keys par)
  from Cons.IH [OF p(2) this] obtain vs' nxt' rm' where
    i: "level_loop n as (vs1, nxt1, rm1) = Inr (vs', nxt', rm')" "lev_ok vs' (lvls @ [nxt']) rm'"
      "raised (n + 1) vs1 vs'" "\<forall>a \<in> set as. \<forall>p \<in> set (v_parents (vtx vs a)). settled n a vs' p"
    unfolding par by blast
  have "\<forall>p \<in> set (v_parents (vtx vs a)). settled n a vs' p"
    using p(4) raised_settled [OF i(3) order_refl] unfolding pa by blast
  with i(4) have "\<forall>a \<in> set (a # as). \<forall>p \<in> set (v_parents (vtx vs a)). settled n a vs' p" by simp
  moreover have "level_loop n (a # as) (vs, nxt, rm) = Inr (vs', nxt', rm')" using v p(1) i(1) by simp
  ultimately show ?case using i(2) raised_trans [OF p(3) i(3)] by blast
qed

text \<open>Below the current level the assignment is closed under parents.\<close>

definition closed_below :: "nat \<Rightarrow> (string \<times> vertex) list \<Rightarrow> bool" where
  "closed_below n vs \<longleftrightarrow> (\<forall>a l. lev vs a = Some l \<and> l < n \<longrightarrow>
     (\<forall>p \<in> set (v_parents (vtx vs a)). settled l a vs p))"

lemma lev_key: "lev vs a \<noteq> None \<Longrightarrow> map_of vs a \<noteq> None"
  by (cases "map_of vs a") (simp_all add: vtx_absent)

lemma levels_loop_ok:
  assumes "length lvls = n + 1" and "n \<le> 101" and "lev_ok vs lvls []" and "closed_below n vs"
    and "\<forall>a. \<forall>p \<in> set (v_parents (vtx vs a)). map_of vs p \<noteq> None"
  shows "\<exists>vs' lvls' m. levels_loop n vs lvls = Inr (vs', lvls') \<and> shape vs' = shape vs \<and> lev_ok vs' lvls' []
    \<and> length lvls' = m + 1 \<and> closed_below m vs' \<and> m \<le> 101 \<and> (m < 101 \<longrightarrow> lvls' ! m = [])
    \<and> (\<forall>a. lev vs a \<noteq> None \<longrightarrow> lev vs' a \<noteq> None)"
  using assms
proof (induction n vs lvls rule: levels_loop.induct)
  case (1 n vs lvls)
  show ?case
  proof (cases "lvls ! n \<noteq> [] \<and> \<not> 100 < n")
    case False
    then show ?thesis using "1.prems" by (subst levels_loop.simps) auto
  next
    case True
    have n: "n < length lvls" using "1.prems"(1) by simp
    have on: "a \<in> set (lvls ! n) \<longleftrightarrow> lev vs a = Some n" for a using lev_ok_mem [OF "1.prems"(3) n] .
    have ok0: "lev_ok vs (lvls @ [[]]) []"
      using "1.prems"(3) unfolding lev_ok_def by (auto simp: nth_append less_Suc_eq)
    have "\<forall>a \<in> set (lvls ! n). map_of vs a \<noteq> None" using on lev_key by auto
    from level_loop_ok [OF "1.prems"(1) ok0 this "1.prems"(5)] obtain vs' nxt rm where
      l: "level_loop n (lvls ! n) (vs, [], []) = Inr (vs', nxt, rm)" "lev_ok vs' (lvls @ [nxt]) rm"
        "raised (n + 1) vs vs'" "\<forall>a \<in> set (lvls ! n). \<forall>p \<in> set (v_parents (vtx vs a)). settled n a vs' p"
      by blast
    define lvls2 where "lvls2 = fold remove_one rm (lvls @ [nxt])"
    have ok2: "lev_ok vs' lvls2 []" "length lvls2 = (n + 1) + 1"
      using remove_all_ok [OF l(2)] "1.prems"(1) by (simp_all add: lvls2_def)
    have sh: "shape vs' = shape vs" using l(3) by (simp add: raised_def)
    note keys = shape_keys [OF sh] and par = shape_parents [OF sh]
    have "closed_below (n + 1) vs'"
      unfolding closed_below_def
    proof (intro allI impI)
      fix a k assume a: "lev vs' a = Some k \<and> k < n + 1"
      then have k: "lev vs a = Some k" using l(3) unfolding raised_def by (metis nat_neq_iff option.inject)
      show "\<forall>p \<in> set (v_parents (vtx vs' a)). settled k a vs' p"
      proof (cases "k = n")
        case True
        then show ?thesis using l(4) k on unfolding par by blast
      next
        case False
        then have "\<forall>p \<in> set (v_parents (vtx vs a)). settled k a vs p"
          using "1.prems"(4) k a unfolding closed_below_def by (metis Suc_eq_plus1 less_antisym)
        moreover have "k \<le> n" using a by simp
        ultimately show ?thesis using raised_settled [OF l(3)] unfolding par by blast
      qed
    qed
    moreover have "\<forall>a. \<forall>p \<in> set (v_parents (vtx vs' a)). map_of vs' p \<noteq> None"
      using "1.prems"(5) by (simp add: keys par)
    moreover have "n + 1 \<le> 101" using True by simp
    moreover have "levels_loop n vs lvls = levels_loop (n + 1) vs' lvls2"
      using True l(1) by (subst levels_loop.simps) (simp add: lvls2_def)
    ultimately show ?thesis
      using "1.IH" [OF True l(1) refl refl] ok2 sh raised_assigned [OF l(3)] unfolding lvls2_def [symmetric] by auto
  qed
qed

inductive reaches_sink :: "graph \<Rightarrow> string \<Rightarrow> bool" for g where
  sink: "map_of (vertices g) a = Some v \<Longrightarrow> v_children v = [] \<Longrightarrow> reaches_sink g a"
| via: "b \<in> set (v_children (vtx (vertices g) a)) \<Longrightarrow> reaches_sink g b \<Longrightarrow> reaches_sink g a"

lemma ginv_parent_child: "ginv g \<Longrightarrow>
    a \<in> set (v_parents (vtx (vertices g) b)) \<longleftrightarrow> b \<in> set (v_children (vtx (vertices g) a))"
  unfolding ginv_def by (simp flip: count_list_pos)

lemma cnt_edges_pos: "e \<in> set es \<Longrightarrow> 0 < cnt_edges (e_from e) (e_to e) es"
  unfolding cnt_edges_def count_list_pos by auto

lemma ginv_parent_key: "ginv g \<Longrightarrow> a \<in> set (v_parents (vtx (vertices g) b)) \<Longrightarrow> map_of (vertices g) a \<noteq> None"
proof -
  assume g: "ginv g" and a: "a \<in> set (v_parents (vtx (vertices g) b))"
  then have "0 < cnt_edges a b (edges g)" unfolding ginv_def by (metis count_list_pos)
  then obtain e where "e \<in> set (edges g)" "e_from e = a" by (auto simp: cnt_edges_def count_list_pos)
  with g have "a \<in> fst ` set (vertices g)" by (auto simp: ginv_def)
  then show ?thesis by (simp add: map_of_eq_None_iff)
qed

lemma map_of_sink_levels: "map_of (sink_levels vs) a =
    map_option (\<lambda>v. if v_children v = [] then v\<lparr>v_level := Some 0\<rparr> else v) (map_of vs a)"
  by (induction vs) (auto simp: sink_levels_def)

lemma shape_sink_levels: "shape (sink_levels vs) = shape vs"
  by (induction vs) (auto simp: shape_def sink_levels_def)

lemma lev_sink_levels:
  assumes "\<forall>v \<in> snd ` set vs. v_level v = None"
  shows "lev (sink_levels vs) a = (case map_of vs a of Some v \<Rightarrow> if v_children v = [] then Some 0 else None | None \<Rightarrow> None)"
proof (cases "map_of vs a")
  case None
  then show ?thesis by (simp add: vtx_def map_of_sink_levels)
next
  case (Some v)
  then have "v_level v = None" using assms by (force dest: map_of_SomeD)
  with Some show ?thesis by (simp add: vtx_def map_of_sink_levels)
qed

lemma count_sinks:
  assumes "distinct (map fst vs)"
  shows "count_list (sinks vs) a = (case map_of vs a of Some v \<Rightarrow> if v_children v = [] then 1 else 0 | None \<Rightarrow> 0)"
  using assms
proof (induction vs)
  case (Cons p vs)
  obtain b v where p: "p = (b, v)" by (cases p)
  have "b \<notin> fst ` set vs" using Cons.prems p by simp
  then have "map_of vs b = None" by (simp add: map_of_eq_None_iff)
  with Cons p show ?case by (auto simp: sinks_def)
qed (simp add: sinks_def)

lemma ginv_edge_parent: "ginv g \<Longrightarrow> e \<in> set (edges g) \<Longrightarrow> e_from e \<in> set (v_parents (vtx (vertices g) (e_to e)))"
  unfolding ginv_def by (metis (mono_tags) cnt_edges_pos count_list_pos)

lemma assignLevels_ok:
  assumes g: "ginv g" and fresh: "\<forall>v \<in> snd ` set (vertices g). v_level v = None"
  shows "\<exists>g'. assignLevels g = Inr g' \<and> shape (vertices g') = shape (vertices g) \<and> edges g' = edges g
    \<and> length (levels g') \<le> 101
    \<and> (\<forall>a l. l < length (levels g') \<longrightarrow> count_list (levels g' ! l) a = (if lev (vertices g') a = Some l then 1 else 0))
    \<and> (length (levels g') < 101 \<longrightarrow> (\<forall>a. reaches_sink g a \<longrightarrow> (\<exists>l < length (levels g'). lev (vertices g') a = Some l))
      \<and> (\<forall>e \<in> set (edges g). \<forall>l. lev (vertices g') (e_to e) = Some l \<longrightarrow> e_from e \<noteq> e_to e
          \<longrightarrow> \<not> js_lt (ji 0) (bn_cmp (e_from e) (e_to e)) \<longrightarrow> (\<exists>k > l. lev (vertices g') (e_from e) = Some k)))"
proof -
  define vs where "vs = sink_levels (vertices g)"
  have sh: "shape vs = shape (vertices g)" by (simp add: vs_def shape_sink_levels)
  have lv: "lev vs a = (case map_of (vertices g) a of Some v \<Rightarrow> if v_children v = [] then Some 0 else None | None \<Rightarrow> None)" for a
    unfolding vs_def using fresh by (rule lev_sink_levels)
  have "lev_ok vs [sinks (vertices g)] []"
    using g count_sinks [of "vertices g"] by (auto simp: lev_ok_def lv ginv_def split: option.splits)
  moreover have "\<forall>a. \<forall>p \<in> set (v_parents (vtx vs a)). map_of vs p \<noteq> None"
    using ginv_parent_key [OF g] by (metis shape_parents [OF sh] shape_keys [OF sh])
  moreover have "closed_below 0 vs" by (simp add: closed_below_def)
  ultimately obtain vs' lvls m where l: "levels_loop 0 vs [sinks (vertices g)] = Inr (vs', lvls)"
    "shape vs' = shape vs" "lev_ok vs' lvls []" "length lvls = m + 1" "closed_below m vs'" "m \<le> 101"
    "m < 101 \<longrightarrow> lvls ! m = []" "\<forall>a. lev vs a \<noteq> None \<longrightarrow> lev vs' a \<noteq> None"
    using levels_loop_ok [of "[sinks (vertices g)]" 0 vs] by auto
  define g' where "g' = g\<lparr>vertices := vs', levels := butlast lvls\<rparr>"
  have a: "assignLevels g = Inr g'"
    using l(1) by (simp add: assignLevels_def g'_def vs_def)
  have len: "length (levels g') = m" using l(4) by (simp add: g'_def)
  have cnt: "count_list (levels g' ! k) p = (if lev (vertices g') p = Some k then 1 else 0)" if "k < m" for k p
    using l(3,4) that by (simp add: g'_def lev_ok_def nth_butlast)
  have lt: "k < m" if "m < 101" "lev vs' p = Some k" for k p
    using that l(3,4,7) lev_ok_mem [OF l(3), of m p] unfolding lev_ok_def
    by (metis Suc_eq_plus1 empty_iff empty_set less_Suc_eq)
  have "lev vs' p \<noteq> None" if "m < 101" "reaches_sink g p" for p
    using that(2)
  proof induction
    case (sink a v)
    then show ?case using l(8) lv by simp
  next
    case (via b a)
    obtain k where k: "lev vs' b = Some k" using via.IH by auto
    have "k < m" using lt [OF that(1) k] .
    with l(5) k have c: "\<forall>p \<in> set (v_parents (vtx vs' b)). settled k b vs' p"
      unfolding closed_below_def by simp
    have "a \<in> set (v_parents (vtx vs' b))"
      using via.hyps(1) by (simp add: ginv_parent_child [OF g] shape_parents [OF l(2)] shape_parents [OF sh])
    with c have "settled k b vs' a" by (rule bspec)
    with k settled_assigned show ?case by (metis option.distinct(1))
  qed
  then have reach: "m < 101 \<longrightarrow> (\<forall>p. reaches_sink g p \<longrightarrow> (\<exists>k < m. lev vs' p = Some k))"
    using lt by (metis option.exhaust)
  have down: "\<exists>k > n. lev vs' (e_from e) = Some k" if "m < 101" "e \<in> set (edges g)" "lev vs' (e_to e) = Some n"
      "e_from e \<noteq> e_to e" "\<not> js_lt (ji 0) (bn_cmp (e_from e) (e_to e))" for e n
  proof -
    have "e_from e \<in> set (v_parents (vtx vs' (e_to e)))"
      using ginv_edge_parent [OF g that(2)] by (simp add: shape_parents [OF l(2)] shape_parents [OF sh])
    with l(5) that(3) lt [OF that(1,3)] have "settled n (e_to e) vs' (e_from e)" unfolding closed_below_def by blast
    with that(4,5) show ?thesis by (auto simp: settled_def)
  qed
  show ?thesis using a len cnt l(2,6) sh reach down by (intro exI [of _ g']) (simp add: g'_def)
qed

end
