(* ===== verification/Graph_Layout.thy ===== *)
theory Graph_Layout
  imports Graph
begin

text \<open>
  \<open>Graph.prototype.render\<close> of \<open>web/client/static/graph.js\<close>: the graph is sent to the layout
  service (\<open>dot\<close>, behind the server's \<open>/dot\<close>), and its answer, a text, is taken apart to place the
  blocks and draw the edges. The service and the sizes of the blocks on the page are parameters.
\<close>

section \<open>Strings\<close>

text \<open>\<open>s.indexOf(t)\<close> for a string; \<open>None\<close> stands for \<open>-1\<close>.\<close>

fun str_index :: "string \<Rightarrow> string \<Rightarrow> nat option" where
  "str_index t s = (if take (length t) s = t then Some 0
     else case s of [] \<Rightarrow> None | _ # cs \<Rightarrow> map_option Suc (str_index t cs))"

declare str_index.simps [simp del]

text \<open>\<open>s.substr(s.indexOf(t) + n)\<close>, and element \<open>i\<close> of an array, if it has one.\<close>

definition after :: "string \<Rightarrow> nat \<Rightarrow> string \<Rightarrow> string" where
  "after t n s = (case str_index t s of Some i \<Rightarrow> drop (i + n) s | None \<Rightarrow> drop (n - 1) s)"

definition elem :: "'a list \<Rightarrow> nat \<Rightarrow> 'a option" where
  "elem xs i = (if i < length xs then Some (xs ! i) else None)"

definition fnum_opt :: "string option \<Rightarrow> jsnum" where
  "fnum_opt s = fnum (case s of Some t \<Rightarrow> t | None \<Rightarrow> ''undefined'')"

definition float_opt :: "string option \<Rightarrow> jsnum" where
  "float_opt s = parse_float (case s of Some t \<Rightarrow> t | None \<Rightarrow> ''undefined'')"

section \<open>The box of the graph\<close>

type_synonym point = "jsnum \<times> jsnum"

record drawn_edge =
  de_color :: string
  de_start :: point
  de_curve :: "(point \<times> point \<times> point) list"
  de_end :: point
  de_width :: nat

record gbox =
  gb_class :: string
  gb_left :: string      \<comment> \<open>\<open>margin-left\<close> and \<open>margin-top\<close>\<close>
  gb_top :: string
  gb_size :: "point option"  \<comment> \<open>the size of the canvas, once it is made\<close>
  gb_edges :: "drawn_edge list"
  gb_blocks :: "(string \<times> point option) list"  \<comment> \<open>the blocks in the box and where they are placed\<close>

record gview =
  cfg_panel :: bool      \<comment> \<open>whether the page has the element \<open>#cfg-static\<close>\<close>
  gPos :: "(string \<times> point) list"
  gbox_dom :: "gbox option"

definition join_keys :: "(string \<times> 'v) list \<Rightarrow> string" where
  "join_keys vs = (case vs of [] \<Rightarrow> [] | (k, _) # rest \<Rightarrow> k @ concat (map (\<lambda>(k, _). '','' @ k) rest))"

text \<open>Setting a margin to a number; jQuery ignores \<open>NaN\<close>.\<close>

definition css_px :: "jsnum \<Rightarrow> string \<Rightarrow> string" where
  "css_px n old = (if n = NaN then old else num_to_string 10 n @ ''px'')"

text \<open>\<open>gPos\<close> after the position of the old box is recorded.\<close>

definition saved_pos :: "gview \<Rightarrow> (string \<times> point) list" where
  "saved_pos gv = (case gbox_dom gv of None \<Rightarrow> gPos gv
     | Some ob \<Rightarrow> obj_put (gb_class ob) (fdec (gb_left ob), fdec (gb_top ob)) (gPos gv))"

text \<open>The old box goes, a new one is opened at the recorded position of its name, or at none.\<close>

definition open_box :: "graph \<Rightarrow> gview \<Rightarrow> gview" where
  "open_box g gv =
     (let name = join_keys (vertices g);
          pos = saved_pos gv;
          (l, t) = (case map_of pos name of None \<Rightarrow> (''0px'', ''0px'')
                    | Some (x, y) \<Rightarrow> (css_px x ''0px'', css_px y ''0px''))
      in gv\<lparr>gPos := pos, gbox_dom := Some \<lparr>gb_class = name, gb_left = l, gb_top = t, gb_size = None, gb_edges = [],
           gb_blocks = map (\<lambda>(a, v). (a, None)) (filter (\<lambda>(a, v). v_rendered v \<noteq> None) (vertices g))\<rparr>\<rparr>)"

section \<open>Reading the answer\<close>

definition parse_point :: "jsnum \<Rightarrow> string \<Rightarrow> point" where
  "parse_point h s = (let to = js_split CHR '','' s in
     (float_opt (elem to 0), js_sub h (float_opt (elem to 1))))"

text \<open>The control points in groups of three; a group that is cut short raises an exception.\<close>

fun curve_of :: "point list \<Rightarrow> (point \<times> point \<times> point) list option" where
  "curve_of [] = Some []"
| "curve_of (a # b # c # ps) = map_option ((#) (a, b, c)) (curve_of ps)"
| "curve_of _ = None"

definition draw_edge :: "jsnum \<Rightarrow> string \<Rightarrow> js_error + drawn_edge" where
  "draw_edge h line =
     (let color = hd (js_split CHR '','' (after ''color='' 6 line));
          posstr = js_split CHR '' '' (hd (js_split CHR 0x22 (after (''pos='' @ [CHR 0x22]) 7 line)));
          pos = map (parse_point h) posstr
      in case pos of
           p0 # p1 # rest \<Rightarrow>
             (case curve_of rest of
                None \<Rightarrow> Inl (TypeError ''x of undefined'')
              | Some cs \<Rightarrow> Inr \<lparr>de_color = color, de_start = p1, de_curve = cs, de_end = p0,
                  de_width = (if js_lt (snd p1) (snd p0) then 1 else 2)\<rparr>)
         | _ \<Rightarrow> Inl (TypeError ''x of undefined''))"

definition place_vertex :: "(string \<Rightarrow> point) \<Rightarrow> graph \<Rightarrow> jsnum \<Rightarrow> string \<Rightarrow> js_error + (string \<times> point) option" where
  "place_vertex dims g h line =
     (case elem (js_split CHR ''N'' (hd (js_split CHR '' '' line))) 1 of
        None \<Rightarrow> Inl (TypeError ''trim of undefined'')
      | Some a \<Rightarrow>
          (let addr = trim a;
               tail = (case str_index ''pos='' line of Some i \<Rightarrow> drop i line | None \<Rightarrow> drop (length line - 1) line)
           in case elem (js_split CHR 0x22 tail) 1 of
                None \<Rightarrow> Inl (TypeError ''split of undefined'')
              | Some ps \<Rightarrow>
                  (case map_of (vertices g) addr of
                     None \<Rightarrow> Inl (TypeError ''vertex is undefined'')
                   | Some v \<Rightarrow>
                       (case v_rendered v of
                          None \<Rightarrow> Inr None
                        | Some r \<Rightarrow>
                            (let pos = js_split CHR '','' ps;
                                 left = js_sub (fnum_opt (elem pos 0)) (js_div (fst (dims r)) (ji 2));
                                 tp = js_sub h (js_add (fnum_opt (elem pos 1)) (js_div (snd (dims r)) (ji 2)))
                             in Inr (Some (addr, left, tp)))))))"

text \<open>The loop over the statements, up to the closing brace.\<close>

fun draw_loop :: "(string \<Rightarrow> point) \<Rightarrow> graph \<Rightarrow> jsnum \<Rightarrow> string list \<Rightarrow> gbox \<Rightarrow> gbox \<times> js_error option" where
  "draw_loop dims g h [] b = (b, Some (TypeError ''indexOf of undefined''))"
| "draw_loop dims g h (line # lines) b =
     (if str_index ''}'' line \<noteq> None then (b, None)
      else if str_index ''->'' line \<noteq> None then
        (case draw_edge h line of
           Inl e \<Rightarrow> (b, Some e)
         | Inr d \<Rightarrow> draw_loop dims g h lines (b\<lparr>gb_edges := gb_edges b @ [d]\<rparr>))
      else
        (case place_vertex dims g h line of
           Inl e \<Rightarrow> (b, Some e)
         | Inr None \<Rightarrow> draw_loop dims g h lines b
         | Inr (Some (addr, p)) \<Rightarrow> draw_loop dims g h lines (b\<lparr>gb_blocks := obj_put addr (Some p) (gb_blocks b)\<rparr>)))"

definition graph_render :: "(dot_stmt list \<Rightarrow> string) \<Rightarrow> (string \<Rightarrow> point) \<Rightarrow> graph \<Rightarrow> gview \<Rightarrow> gview \<times> js_error option" where
  "graph_render service dims g gv =
     (if \<not> cfg_panel gv then (gv\<lparr>gPos := saved_pos gv\<rparr>, Some (TypeError ''appendChild of null'')) else
      let gv = open_box g gv;
          resp = js_split CHR '';'' (filter (\<lambda>c. c \<noteq> CHR 0x0A) (service (dot_request dims g)))
      in case elem (js_split CHR 0x22 (hd resp)) 1 of
           None \<Rightarrow> (gv, Some (TypeError ''split of undefined''))
         | Some gd \<Rightarrow>
             (let gdata = js_split CHR '','' gd;
                  wd = fnum_opt (elem gdata 2); h = fnum_opt (elem gdata 3);
                  b = (the (gbox_dom gv))\<lparr>gb_size := Some (js_add wd (ji 10), js_add h (ji 10))\<rparr>;
                  (b, r) = draw_loop dims g h (drop 2 resp) b
              in (gv\<lparr>gbox_dom := Some b\<rparr>, r)))"

section \<open>Reopening a box\<close>

text \<open>
  When a graph is shown again after another one, its box is at the margins it was left at, if
  these were whole numbers of pixels.
\<close>

lemma open_box_class: "\<exists>b. gbox_dom (open_box g gv) = Some b \<and> gb_class b = join_keys (vertices g)"
  by (auto simp: open_box_def Let_def split: prod.splits)


lemma css_px_fdec: "safe k \<Longrightarrow> css_px (fdec (int_to_string 10 k @ ''px'')) old = int_to_string 10 k @ ''px''"
  using parse_int_trailing [of "''px''" k]
  by (simp add: css_px_def fdec_def is_digit_def digit_val_def)

lemma open_box_gPos: "gPos (open_box g gv) = saved_pos gv"
  by (simp add: open_box_def Let_def split: prod.splits)

lemma open_box_margins:
  "map_of (gPos (open_box g gv)) (join_keys (vertices g)) = Some (x, y) \<Longrightarrow>
   \<exists>b. gbox_dom (open_box g gv) = Some b \<and> gb_left b = css_px x ''0px'' \<and> gb_top b = css_px y ''0px''"
  unfolding open_box_gPos by (simp add: open_box_def Let_def)

lemma reopened_box:
  assumes b: "gbox_dom gv = Some b" "gb_class b = join_keys (vertices g)"
    and m: "gb_left b = int_to_string 10 x @ ''px''" "safe x" "gb_top b = int_to_string 10 y @ ''px''" "safe y"
    and other: "join_keys (vertices h) \<noteq> join_keys (vertices g)"
  shows "\<exists>b'. gbox_dom (open_box g (open_box h gv)) = Some b' \<and> gb_left b' = gb_left b \<and> gb_top b' = gb_top b"
proof -
  obtain c where c: "gbox_dom (open_box h gv) = Some c" "gb_class c = join_keys (vertices h)"
    using open_box_class by blast
  have "map_of (gPos (open_box g (open_box h gv))) (join_keys (vertices g)) = Some (fdec (gb_left b), fdec (gb_top b))"
    using b c other by (simp add: open_box_gPos saved_pos_def [of "open_box h gv"] saved_pos_def [of gv])
  from open_box_margins [OF this] show ?thesis using m by (simp add: css_px_fdec)
qed

end
