(* ===== verification/Controls.thy ===== *)
theory Controls
  imports Vtimeline Highlight Graph_Layout
begin

text \<open>
  \<open>web/client/controls.js\<close>: what the user and the server can do to the selection - messages, the
  input fields, the mouse and the keyboard. Answers of the user (\<open>prompt\<close>) and of the tag service
  (\<open>/gettagsa\<close>) are parameters.
\<close>

section \<open>Messages and autoruns\<close>

definition on_setiaddr :: "string option \<Rightarrow> world \<Rightarrow> world" where
  "on_setiaddr iaddr w = update_iaddr iaddr None w"

definition on_setclnum :: "jsnum \<Rightarrow> jsnum \<Rightarrow> world \<Rightarrow> world" where
  "on_setclnum forknum clnum w =
     push_history False (session_set ''clnum'' (Some (VNum clnum)) (session_set ''forknum'' (Some (VNum forknum)) w))"

definition autorun_navigateiaddr :: "world \<Rightarrow> world \<times> js_error option" where
  "autorun_navigateiaddr w =
     (let (iaddr, w) = session_get ''iaddr'' False w in (emit ''navigateiaddr'' [iaddr] w, None))"

definition autorun_select_fork :: "world \<Rightarrow> world \<times> js_error option" where
  "autorun_select_fork w =
     (let (mc, w) = session_get ''max_clnum'' False w in
      case forks_of mc of None \<Rightarrow> (w, None) | Some maxclnum \<Rightarrow>
      (let (forknum, w) = session_get ''forknum'' True w in
       if map_of maxclnum (prop_key forknum) = None then
         (case maxclnum of
            [] \<Rightarrow> (w, None)
          | (i, _, hi) # _ \<Rightarrow>
              (session_set ''clnum'' (Some (VNum hi)) (session_set ''forknum'' (Some (VNum (fdec i))) w), None))
       else (w, None)))"

text \<open>\<open>val\<close> sets the field also when its argument is \<open>undefined\<close>: to the empty string.\<close>

definition set_val :: "string \<Rightarrow> sval option \<Rightarrow> world \<Rightarrow> world" where
  "set_val i v w = set_dom i (if v = None then [] else prop_key v) w"

definition autorun_update_controls :: "world \<Rightarrow> world \<times> js_error option" where
  "autorun_update_controls w =
     (let (clnum, w) = session_get ''clnum'' False w; w = set_val ''control_clnum'' clnum w;
          (forknum, w) = session_get ''forknum'' False w; w = set_val ''control_forknum'' forknum w;
          (iaddr, w) = session_get ''iaddr'' False w; w = set_val ''control_iaddr'' iaddr w;
          (daddr, w) = session_get ''daddr'' False w; w = set_val ''control_daddr'' daddr w
      in (w, None))"

section \<open>Input fields\<close>

definition control_clnum_change :: "string \<Rightarrow> world \<Rightarrow> world" where
  "control_clnum_change v w = session_set ''clnum'' (Some (VNum (fdec v))) w"

definition control_forknum_change :: "string \<Rightarrow> world \<Rightarrow> world" where
  "control_forknum_change v w = session_set ''forknum'' (Some (VNum (fdec v))) w"

definition control_iaddr_change :: "string \<Rightarrow> world \<Rightarrow> world" where
  "control_iaddr_change v w = (if v = [] then session_set ''iaddr'' None w else update_iaddr (Some v) (Some True) w)"

definition control_daddr_change :: "string \<Rightarrow> world \<Rightarrow> world \<times> js_error option" where
  "control_daddr_change v w =
     (if v = [] then (session_set ''dview'' None (session_set ''daddr'' None w), None) else update_dview (Some v) w)"

section \<open>Dragging the graph\<close>

record drag =
  drag_x :: jsnum
  drag_y :: jsnum
  is_dragging :: bool

text \<open>The margins of the box of the graph, \<open>NaN\<close> if there is none.\<close>

definition margins :: "gview \<Rightarrow> jsnum \<times> jsnum" where
  "margins gv = (case gbox_dom gv of None \<Rightarrow> (NaN, NaN) | Some b \<Rightarrow> (fdec (gb_left b), fdec (gb_top b)))"

definition set_margins :: "jsnum \<Rightarrow> jsnum \<Rightarrow> gview \<Rightarrow> gview" where
  "set_margins x y gv = gv\<lparr>gbox_dom := map_option
     (\<lambda>b. b\<lparr>gb_left := css_px x (gb_left b), gb_top := css_px y (gb_top b)\<rparr>) (gbox_dom gv)\<rparr>"

definition startDrag :: "jsnum \<Rightarrow> jsnum \<Rightarrow> gview \<Rightarrow> drag" where
  "startDrag x y gv = \<lparr>drag_x = js_sub (fst (margins gv)) x, drag_y = js_sub (snd (margins gv)) y, is_dragging = True\<rparr>"

definition endDrag :: "jsnum \<Rightarrow> jsnum \<Rightarrow> bool \<Rightarrow> gview \<times> drag \<Rightarrow> gview \<times> drag" where
  "endDrag x y isend st =
     (let (gv, d) = st;
          gv = (if is_dragging d then set_margins (js_add (drag_x d) x) (js_add (drag_y d) y) gv else gv)
      in (gv, if isend then d\<lparr>is_dragging := False\<rparr> else d))"

definition cfg_mousewheel :: "jsnum \<Rightarrow> jsnum \<Rightarrow> gview \<Rightarrow> gview" where
  "cfg_mousewheel wdx wdy gv = set_margins (js_add (fst (margins gv)) wdx) (js_add (snd (margins gv)) wdy) gv"

definition cfg_mousedown :: "jsnum \<Rightarrow> jsnum \<Rightarrow> gview \<times> drag \<Rightarrow> gview \<times> drag" where
  "cfg_mousedown x y st = (fst st, startDrag x y (fst st))"

definition cfg_mousemove :: "jsnum \<Rightarrow> jsnum \<Rightarrow> gview \<times> drag \<Rightarrow> gview \<times> drag" where
  "cfg_mousemove x y st = endDrag x y False st"

definition cfg_mouseup :: "jsnum \<Rightarrow> jsnum \<Rightarrow> gview \<times> drag \<Rightarrow> gview \<times> drag" where
  "cfg_mouseup x y st = endDrag x y True st"

section \<open>Wheels\<close>

text \<open>The rows of the flat listing, by the class attribute of their first child.\<close>

definition flat_mousewheel :: "string list \<Rightarrow> jsnum \<Rightarrow> world \<Rightarrow> world \<times> js_error option" where
  "flat_mousewheel cdr wheelDelta w =
     (let go = (\<lambda>n. if n < length cdr then (session_set ''iview'' (map_option VStr (get_address_from_class (cdr ! n) None)) w, None)
                    else (w, Some (TypeError ''childNodes of undefined'')))
      in if js_lt wheelDelta (ji 0) then go 16 else if js_lt (ji 0) wheelDelta then go 14 else (w, None))"

definition move_clnum :: "int \<Rightarrow> world \<Rightarrow> world" where
  "move_clnum k w = (let (cl, w) = session_get ''clnum'' False w
     in session_set ''clnum'' (Some (VNum (js_add (num_of cl) (ji k)))) w)"

definition idump_mousewheel :: "jsnum \<Rightarrow> world \<Rightarrow> world" where
  "idump_mousewheel wheelDelta w =
     (if js_lt wheelDelta (ji 0) then move_clnum 1 w else if js_lt (ji 0) wheelDelta then move_clnum (- 1) w else w)"

section \<open>The keyboard\<close>

text \<open>Load time: \<open>Session.setDefault("flat", false)\<close>.\<close>

definition controls_init :: "world \<Rightarrow> world" where
  "controls_init w = session_setDefault ''flat'' (Some (VBool False)) w"

record key_event =
  ke_code :: nat
  ke_ctrl :: bool
  ke_shift :: bool

definition key_forks :: "bool \<Rightarrow> world \<Rightarrow> world \<times> js_error option" where
  "key_forks left w =
     (let (fn, w) = session_get ''forknum'' False w;
          (mc, w) = session_get ''max_clnum'' False w
      in case forks_of mc of
           None \<Rightarrow> (w, Some (TypeError ''Object.keys of undefined''))
         | Some maxclnum \<Rightarrow>
             (let arr = map (\<lambda>(k, _). fdec k) maxclnum;
                  idx = (case fn of Some (VNum n) \<Rightarrow> if n = NaN then - 1 else (case index_of n arr of None \<Rightarrow> - 1 | Some i \<Rightarrow> int i)
                         | _ \<Rightarrow> - 1)
              in (if left
                  then (if 0 < idx then session_set ''forknum'' (Some (VNum (arr ! nat (idx - 1)))) w else w)
                  else (if idx < int (length arr) - 1 then session_set ''forknum'' (Some (VNum (arr ! nat (idx + 1)))) w else w),
                  None)))"

definition key_make :: "string \<Rightarrow> world \<Rightarrow> world" where
  "key_make what w =
     (let (iaddr, w) = session_get ''iaddr'' False w;
          w = emit ''make'' [Some (VStr what), iaddr] w;
          (flat, w) = session_get ''flat'' False w
      in session_set ''flat'' flat w)"

definition key_function :: "bool \<Rightarrow> world \<Rightarrow> world" where
  "key_function start w =
     (let (fn, w) = session_get ''forknum'' False w; (cl, w) = session_get ''clnum'' False w
      in emit ''navigatefunction'' [fn, cl, Some (VBool start)] w)"

text \<open>
  The tag service answers a list of addresses with a list of tag tables; \<open>None\<close> is an answer
  without a first table.
\<close>

type_synonym tag_service = "sval option \<Rightarrow> (string \<Rightarrow> sval option) option"
type_synonym prompter = "string \<Rightarrow> sval option \<Rightarrow> string option"

definition key_args :: "tag_service \<Rightarrow> prompter \<Rightarrow> world \<Rightarrow> world \<times> js_error option" where
  "key_args tags ask w =
     (let (addr, w) = session_get ''iaddr'' False w in
      case tags addr of
        None \<Rightarrow> (w, Some (TypeError ''function of undefined''))
      | Some row \<Rightarrow>
          (if row ''function'' \<noteq> None
           then (emit ''setfunctionargswrap'' [addr, map_option VStr (ask ''#args for function'' (row ''nargs''))] w, None)
           else (w, None)))"

definition key_tag :: "tag_service \<Rightarrow> prompter \<Rightarrow> bool \<Rightarrow> string \<Rightarrow> world \<Rightarrow> world \<times> js_error option" where
  "key_tag tags ask shift tagname w =
     (let (addr, w) = session_get (if shift then ''daddr'' else ''iaddr'') False w in
      if addr = None then (w, None) else
      case tags addr of
        None \<Rightarrow> (w, Some (TypeError ''tag of undefined''))
      | Some row \<Rightarrow>
          (let old = (case row tagname of None \<Rightarrow> Some (VStr []) | Some v \<Rightarrow> Some v) in
           case ask ((if tagname = ''name'' then ''Rename address '' else ''Enter comment for '') @ prop_key addr) old of
             None \<Rightarrow> (w, None)
           | Some dat \<Rightarrow>
               (let w = emit ''settags'' [Some (VObj [(prop_key addr, VObj [(tagname, VStr dat)])])] w
                in (if tagname = ''name'' then replace_names w
                    else set_dom (''.comment_'' @ prop_key addr) (''; '' @ dat) w, None))))"

definition key_goto :: "prompter \<Rightarrow> world \<Rightarrow> world" where
  "key_goto ask w = (case ask ''Enter change or address'' None of
       None \<Rightarrow> w
     | Some dat \<Rightarrow>
         if take 2 dat = ''0x'' then update_iaddr (Some dat) None w
         else if js_eq (fdec dat) (to_number dat) then session_set ''clnum'' (Some (VNum (fdec dat))) w
         else emit ''gotoname'' [Some (VStr dat)] w)"

definition onkeydown :: "tag_service \<Rightarrow> prompter \<Rightarrow> key_event \<Rightarrow> world \<Rightarrow> world \<times> js_error option" where
  "onkeydown tags ask e w =
     (let k = ke_code e in
      if ke_ctrl e then (w, None)
      else if k = 32 then
        (let (flat, w) = session_get ''flat'' False w in (session_set ''flat'' (Some (VBool (\<not> bool_of flat))) w, None))
      else if k = 37 \<or> k = 39 then key_forks (k = 37) w
      else if k = 89 then key_args tags ask w
      else if k = 67 \<and> ke_shift e then delete_all_forks w
      else if k = 80 then (key_make ''function'' w, None)
      else if k = 67 then (key_make ''code'' w, None)
      else if k = 65 then (key_make ''string'' w, None)
      else if k = 68 then (key_make ''data'' w, None)
      else if k = 85 then (key_make ''undefined'' w, None)
      else if k = 38 then (move_clnum (- 1) w, None)
      else if k = 40 then (move_clnum 1 w, None)
      else if k = 77 then (key_function False w, None)
      else if k = 188 then (key_function True w, None)
      else if k = 90 then (zoom_out_max None w, None)
      else if k = 74 then (go_to_flag True (ke_shift e) w, None)
      else if k = 75 then (go_to_flag False (ke_shift e) w, None)
      else if k = 27 then (history_back w, None)
      else if k = 78 \<or> k = 186 then key_tag tags ask (ke_shift e) (if k = 186 then ''comment'' else ''name'') w
      else if k = 71 then (key_goto ask w, None)
      else (w, None))"

section \<open>Clicks\<close>

text \<open>Handlers by the class of the element; they get its class attribute or its text.\<close>

definition click_clnum :: "string \<Rightarrow> world \<Rightarrow> world" where
  "click_clnum textContent w = push_history False (session_set ''clnum'' (Some (VNum (fdec textContent))) w)"

definition click_data :: "string \<Rightarrow> world \<Rightarrow> world" where
  "click_data cls w =
     push_history False (session_set ''daddr'' (map_option VStr (get_address_from_class cls (Some ''data''))) w)"

definition click_datamemory :: "string \<Rightarrow> world \<Rightarrow> world \<times> js_error option" where
  "click_datamemory cls w = update_dview (get_address_from_class cls None) w"

definition click_datainstruction :: "string \<Rightarrow> world \<Rightarrow> world" where
  "click_datainstruction cls w = update_iaddr (get_address_from_class cls None) (Some False) w"

definition dblclick_datainstruction :: "string \<Rightarrow> world \<Rightarrow> world" where
  "dblclick_datainstruction cls w = update_iaddr (get_address_from_class cls None) None w"

definition contextmenu_datainstruction :: "string \<Rightarrow> world \<Rightarrow> world \<times> js_error option" where
  "contextmenu_datainstruction cls w = update_dview (get_address_from_class cls None) w"

definition dblclick_hexdump :: "string \<Rightarrow> world \<Rightarrow> world \<times> js_error option" where
  "dblclick_hexdump cls w = update_dview (get_address_from_class cls None) w"

definition contextmenu_hexdumpdatainstruction :: "string \<Rightarrow> world \<Rightarrow> world" where
  "contextmenu_hexdumpdatainstruction cls w = update_iaddr (get_address_from_class cls None) None w"

definition click_flag :: "string \<Rightarrow> string \<Rightarrow> world \<Rightarrow> world" where
  "click_flag parent_id textContent w =
     push_history False (session_set ''clnum'' (Some (VNum (fdec textContent)))
       (session_set ''forknum'' (Some (VNum (fdec (drop 9 parent_id)))) w))"

section \<open>A drag moves the graph by the way of the mouse\<close>

definition px :: "int \<Rightarrow> string" where
  "px k = int_to_string 10 k @ ''px''"

lemma css_px_ji [simp]: "css_px (ji k) old = px k"
  by (simp add: css_px_def px_def ji_def)

lemma fdec_px: "safe k \<Longrightarrow> fdec (px k) = ji k"
  using parse_int_trailing [of "''px''" k] by (simp add: px_def fdec_def is_digit_def digit_val_def)

text \<open>A box at given margins, with everything else as in another state of the view.\<close>

definition box_at :: "int \<Rightarrow> int \<Rightarrow> gbox \<Rightarrow> gview \<Rightarrow> gview" where
  "box_at x y b gv = gv\<lparr>gbox_dom := Some (b\<lparr>gb_left := px x, gb_top := px y\<rparr>)\<rparr>"

lemma set_margins_box: "set_margins (ji u) (ji v) (box_at x y b gv) = box_at u v b gv"
  by (simp add: set_margins_def box_at_def)

lemma margins_box: "safe x \<Longrightarrow> safe y \<Longrightarrow> margins (box_at x y b gv) = (ji x, ji y)"
  by (simp add: margins_def box_at_def fdec_px)

definition screen :: "int \<Rightarrow> bool" where
  "screen k \<longleftrightarrow> \<bar>k\<bar> < 2 ^ 32"

lemma drag_moves:
  assumes "screen x0" "screen y0" "screen l" "screen t" "\<forall>(x, y) \<in> set ms. screen x \<and> screen y"
  shows "\<exists>u v. fold (\<lambda>(x, y). cfg_mousemove (ji x) (ji y)) ms
      (box_at p q b gv, \<lparr>drag_x = ji (l - x0), drag_y = ji (t - y0), is_dragging = True\<rparr>)
    = (box_at u v b gv, \<lparr>drag_x = ji (l - x0), drag_y = ji (t - y0), is_dragging = True\<rparr>)"
  using assms(5)
proof (induction ms arbitrary: p q)
  case (Cons m ms)
  obtain x y where m: "m = (x, y)" by (cases m)
  have "safe (l - x0 + x)" "safe (t - y0 + y)" using Cons.prems assms m by (auto simp: safe_def screen_def)
  then show ?case
    using Cons.IH [of "l - x0 + x" "t - y0 + y"] Cons.prems by (simp add: m cfg_mousemove_def endDrag_def set_margins_box)
qed auto

lemma drag_result:
  assumes "screen x0" "screen y0" "screen l" "screen t" "\<forall>(x, y) \<in> set ms. screen x \<and> screen y"
    and "screen x" "screen y"
  shows "cfg_mouseup (ji x) (ji y) (fold (\<lambda>(x, y). cfg_mousemove (ji x) (ji y)) ms
      (cfg_mousedown (ji x0) (ji y0) (box_at l t b gv, d)))
    = (box_at (l - x0 + x) (t - y0 + y) b gv, \<lparr>drag_x = ji (l - x0), drag_y = ji (t - y0), is_dragging = False\<rparr>)"
proof -
  have s: "safe l" "safe t" "safe (l - x0)" "safe (t - y0)" "safe (l - x0 + x)" "safe (t - y0 + y)"
    using assms by (auto simp: safe_def screen_def)
  have "cfg_mousedown (ji x0) (ji y0) (box_at l t b gv, d)
      = (box_at l t b gv, \<lparr>drag_x = ji (l - x0), drag_y = ji (t - y0), is_dragging = True\<rparr>)"
    using s by (simp add: cfg_mousedown_def startDrag_def margins_box)
  moreover obtain u v where "fold (\<lambda>(x, y). cfg_mousemove (ji x) (ji y)) ms
      (box_at l t b gv, \<lparr>drag_x = ji (l - x0), drag_y = ji (t - y0), is_dragging = True\<rparr>)
    = (box_at u v b gv, \<lparr>drag_x = ji (l - x0), drag_y = ji (t - y0), is_dragging = True\<rparr>)"
    using drag_moves [OF assms(1-5)] by blast
  ultimately show ?thesis
    using s by (simp add: cfg_mouseup_def endDrag_def set_margins_box)
qed

end
