(* ===== verification/Static_View.thy ===== *)
theory Static_View
  imports Graph_Layout Highlight
begin

text \<open>
  \<open>web/client/static/static.js\<close>: the static view. The server answers \<open>getstaticview\<close> with a flat
  listing or with the basic blocks of a function, from which the control flow graph is built.
\<close>

section \<open>Instructions\<close>

record ins =
  in_address :: string
  in_instruction :: "string option"
  in_type :: "string option"
  in_bytes :: "nat list option"
  in_comment :: "string option"
  in_dests :: "(string \<times> nat) list option"

definition bytes_html :: "nat list \<Rightarrow> string" where
  "bytes_html bs = concat (map (\<lambda>x. hex2 (Some (ji (int x))) @ '' '') bs)"

definition div_of :: "string \<Rightarrow> string \<Rightarrow> string" where
  "div_of cls body = ''<div class='' @ dq @ cls @ dq @ ''>'' @ body @ ''</div>''"

definition comment_html :: "ins \<Rightarrow> string" where
  "comment_html i = ''<span class='' @ dq @ ''comment comment_'' @ in_address i @ dq @ ''>''
     @ (case in_comment i of None \<Rightarrow> '''' | Some c \<Rightarrow> ''; '' @ c) @ ''</span>''"

definition instruction_html_from_tags :: "ins \<Rightarrow> (js_error + string) handler" where
  "instruction_html_from_tags i w =
     (let addr = ''<span class='' @ dq @ ''insaddr datainstruction addr addr_'' @ in_address i @ dq @ ''>''
            @ in_address i @ ''</span> '';
          (desc, w) = (case in_instruction i of
             Some text \<Rightarrow>
               (case highlight_instruction (Some text) True w of
                  (Inl e, w) \<Rightarrow> (Inl e, w)
                | (Inr h, w) \<Rightarrow> (Inr (div_of ''instructiondesc'' h @ '' ''), w))
           | None \<Rightarrow>
               (case in_bytes i of
                  None \<Rightarrow> (Inl (TypeError ''bytes is undefined''), w)
                | Some bs \<Rightarrow>
                    (Inr (if in_type i = Some ''string'' then div_of ''stringdesc'' (sq @ map char_of bs @ sq)
                          else if in_type i = Some ''data'' then div_of ''datadesc'' (bytes_html bs)
                          else div_of ''bytesdesc'' (bytes_html bs)), w)))
      in case desc of Inl e \<Rightarrow> (Inl e, w)
         | Inr d \<Rightarrow> (Inr (div_of ''instruction'' (addr @ d @ comment_html i)), w))"

fun instructions_html :: "ins list \<Rightarrow> (js_error + string) handler" where
  "instructions_html [] w = (Inr [], w)"
| "instructions_html (i # is) w =
     (case instruction_html_from_tags i w of
        (Inl e, w) \<Rightarrow> (Inl e, w)
      | (Inr h, w) \<Rightarrow>
          (case instructions_html is w of (Inl e, w) \<Rightarrow> (Inl e, w) | (Inr rest, w) \<Rightarrow> (Inr (h @ rest), w)))"

section \<open>The flat listing\<close>

definition display_flat :: "ins list \<Rightarrow> world \<Rightarrow> world \<times> js_error option" where
  "display_flat addrs w = (case instructions_html addrs w of
       (Inl e, w) \<Rightarrow> (w, Some e)
     | (Inr h, w) \<Rightarrow> (set_dom ''flat-static'' (div_of ''flat'' h) w, None))"

definition on_flat :: "ins list \<Rightarrow> world \<Rightarrow> world \<times> js_error option" where
  "on_flat addrs w = and_then (display_flat addrs w) (\<lambda>w. (replace_names (rehighlight w), None))"

definition autorun_static :: "world \<Rightarrow> world \<times> js_error option" where
  "autorun_static w =
     (let (iview, w) = session_get ''iview'' False w;
          (flat, w) = session_get ''flat'' False w
      in if iview = None then (w, None)
         else (emit ''getstaticview'' [iview, flat, Some (VPair (ji (- 15)) (ji 40))] w, None))"

section \<open>The graph of a function\<close>

text \<open>The colour of an edge, by the kind of the jump and whether it is the only one.\<close>

definition edge_color :: "nat \<Rightarrow> nat \<Rightarrow> string" where
  "edge_color ndests kind =
     (if 1 < ndests \<and> kind = 4 then ''red'' else if kind = 1 then ''green'' else ''blue'')"

definition add_dests :: "string \<Rightarrow> (string \<times> nat) list \<Rightarrow> graph \<Rightarrow> graph" where
  "add_dests addr dests g =
     fold (\<lambda>(d, kind) g. if kind = 3 then g else addEdge addr d (edge_color (length dests) kind) g) dests g"

fun build_graph :: "ins list list \<Rightarrow> graph \<Rightarrow> world \<Rightarrow> (js_error + graph) \<times> world" where
  "build_graph [] g w = (Inr g, w)"
| "build_graph (bb # bbs) g w =
     (if bb = [] then build_graph bbs g w else
      case instructions_html bb w of
        (Inl e, w) \<Rightarrow> (Inl e, w)
      | (Inr idump, w) \<Rightarrow>
          (let addr = in_address (hd bb); g = addVertex addr (Some (length bb, idump)) g in
           case in_dests (last bb) of
             None \<Rightarrow> (Inl (TypeError ''dests is undefined''), w)
           | Some dests \<Rightarrow> build_graph bbs (add_dests addr dests g) w))"

text \<open>
  \<open>on_function\<close>, with the layout service and the sizes of the blocks as parameters; the box of the
  graph is a state of its own.
\<close>

definition on_function :: "(dot_stmt list \<Rightarrow> string) \<Rightarrow> (string \<Rightarrow> point) \<Rightarrow> ins list list
    \<Rightarrow> gview \<Rightarrow> world \<Rightarrow> (gview \<times> world) \<times> js_error option" where
  "on_function service dims blocks gv w =
     (case build_graph blocks new_graph w of
        (Inl e, w) \<Rightarrow> ((gv, w), Some e)
      | (Inr g, w) \<Rightarrow>
          (case assignLevels g of
             Inl e \<Rightarrow> ((gv, w), Some e)
           | Inr g' \<Rightarrow>
               (case graph_render service dims g' gv of
                  (gv, Some e) \<Rightarrow> ((gv, w), Some e)
                | (gv, None) \<Rightarrow> ((gv, replace_names (rehighlight w)), None))))"

section \<open>The graph is well formed\<close>

lemma add_dests_ginv: "ginv g \<Longrightarrow> ginv (add_dests addr dests g)"
proof -
  have "ginv g \<Longrightarrow> ginv (fold (\<lambda>(d, kind) g. if kind = 3 then g else addEdge addr d (c kind) g) ds g)" for ds c
    by (induction ds arbitrary: g) (auto simp: addEdge_ginv)
  then show "ginv g \<Longrightarrow> ?thesis" by (simp add: add_dests_def)
qed

definition fresh_levels :: "graph \<Rightarrow> bool" where
  "fresh_levels g \<longleftrightarrow> (\<forall>v \<in> snd ` set (vertices g). v_level v = None)"

lemma fresh_addVertex:
  assumes "fresh_levels g" and "distinct (map fst (vertices g))"
  shows "fresh_levels (addVertex a i g)"
proof -
  have n: "v_level (vtx (vertices g) a) = None"
    using assms(1) by (cases "map_of (vertices g) a") (force simp: fresh_levels_def vtx_def dest: map_of_SomeD)+
  have "fresh_levels (g\<lparr>vertices := obj_put a v vs\<rparr>)"
    if "v_level v = None" "\<forall>u \<in> snd ` set vs. v_level u = None" "distinct (map fst vs)" for v vs
    using that by (auto simp: fresh_levels_def set_obj_put)
  with assms n show ?thesis
    by (auto simp: addVertex_def Let_def upd_vtx_def fresh_levels_def set_obj_put distinct_obj_put vtx_absent split: option.splits)
qed

lemma fresh_upd:
  assumes "fresh_levels (g\<lparr>vertices := vs\<rparr>)" and "distinct (map fst vs)" and "\<And>v. v_level (f v) = v_level v"
  shows "fresh_levels (g\<lparr>vertices := upd_vtx a f vs\<rparr>)"
proof -
  have "v_level (vtx vs a) = None"
    using assms(1) by (cases "map_of vs a") (force simp: fresh_levels_def vtx_def dest: map_of_SomeD)+
  with assms show ?thesis by (auto simp: fresh_levels_def upd_vtx_def set_obj_put)
qed

text \<open>The graph under construction: well formed, and no level assigned yet.\<close>

definition building :: "graph \<Rightarrow> bool" where
  "building g \<longleftrightarrow> ginv g \<and> fresh_levels g"

lemma building_new: "building new_graph"
  unfolding building_def using ginv_new by (simp add: fresh_levels_def new_graph_def)

lemma building_addVertex: "building g \<Longrightarrow> building (addVertex a i g)"
  using fresh_addVertex [of g a i] addVertex_ginv [of g a i] by (simp add: building_def ginv_def)

lemma building_addEdge:
  assumes "building g"
  shows "building (addEdge v1 v2 c g)"
proof -
  let ?g = "addVertex v2 None (addVertex v1 None g)"
  have g: "fresh_levels ?g" "distinct (map fst (vertices ?g))"
    using building_addVertex [OF building_addVertex [OF assms], of v2 None v1 None]
    by (simp_all add: building_def ginv_def)
  have "fresh_levels (?g\<lparr>vertices := upd_vtx v2 (\<lambda>v. v\<lparr>v_parents := v_parents v @ [v1]\<rparr>)
      (upd_vtx v1 (\<lambda>v. v\<lparr>v_children := v_children v @ [v2]\<rparr>) (vertices ?g))\<rparr>)"
    using g by (intro fresh_upd distinct_upd_vtx) simp_all
  then have "fresh_levels (addEdge v1 v2 c g)" by (simp add: addEdge_def Let_def fresh_levels_def)
  with assms addEdge_ginv show ?thesis by (simp add: building_def)
qed

lemma building_add_dests: "building g \<Longrightarrow> building (add_dests addr dests g)"
proof -
  have "building g \<Longrightarrow> building (fold (\<lambda>(d, kind) g. if kind = 3 then g else addEdge addr d (c kind) g) ds g)" for ds c
    by (induction ds arbitrary: g) (auto simp: building_addEdge)
  then show "building g \<Longrightarrow> ?thesis" by (simp add: add_dests_def)
qed

lemma build_graph_building: "building g \<Longrightarrow> build_graph bbs g w = (Inr g', w') \<Longrightarrow> building g'"
proof (induction bbs arbitrary: g w)
  case (Cons bb bbs)
  show ?case
  proof (cases "bb = []")
    case True
    with Cons show ?thesis by simp
  next
    case False
    obtain r w1 where h: "instructions_html bb w = (r, w1)" by fastforce
    then obtain idump where r: "r = Inr idump" using Cons.prems(2) False by (cases r) simp_all
    then obtain dests where d: "in_dests (last bb) = Some dests"
      using Cons.prems(2) False h by (cases "in_dests (last bb)") (simp_all add: Let_def)
    let ?g = "add_dests (in_address (hd bb)) dests (addVertex (in_address (hd bb)) (Some (length bb, idump)) g)"
    have "build_graph bbs ?g w1 = (Inr g', w')" using Cons.prems(2) False h r d by (simp add: Let_def)
    moreover have "building ?g" using Cons.prems(1) by (intro building_add_dests building_addVertex)
    ultimately show ?thesis using Cons.IH by blast
  qed
qed simp

section \<open>The edges of the graph\<close>

text \<open>The edges a block contributes: its jumps that are not calls (kind 3), coloured by kind.\<close>

definition block_edges :: "ins list \<Rightarrow> edge list" where
  "block_edges bb = (if bb = [] then [] else
     case in_dests (last bb) of None \<Rightarrow> [] | Some dests \<Rightarrow>
       map (\<lambda>(d, kind). \<lparr>e_from = in_address (hd bb), e_to = d, e_color = edge_color (length dests) kind, e_reversed = False\<rparr>)
         (filter (\<lambda>(d, kind). kind \<noteq> 3) dests))"

lemma edges_add_dests: "edges (add_dests a dests g) = edges g
    @ map (\<lambda>(d, kind). \<lparr>e_from = a, e_to = d, e_color = edge_color (length dests) kind, e_reversed = False\<rparr>)
        (filter (\<lambda>(d, kind). kind \<noteq> 3) dests)"
proof -
  have "edges (fold (\<lambda>(d, kind) g. if kind = 3 then g else addEdge a d (c kind) g) ds g) = edges g
    @ map (\<lambda>(d, kind). \<lparr>e_from = a, e_to = d, e_color = c kind, e_reversed = False\<rparr>)
        (filter (\<lambda>(d, kind). kind \<noteq> 3) ds)" for ds c
    by (induction ds arbitrary: g) (auto simp: addEdge_def Let_def addVertex_vertices)
  then show ?thesis by (simp add: add_dests_def)
qed

lemma build_graph_edges: "build_graph bbs g w = (Inr g', w') \<Longrightarrow> edges g' = edges g @ concat (map block_edges bbs)"
proof (induction bbs arbitrary: g w)
  case (Cons bb bbs)
  show ?case
  proof (cases "bb = []")
    case True
    with Cons show ?thesis by (simp add: block_edges_def)
  next
    case False
    obtain r w1 where h: "instructions_html bb w = (r, w1)" by fastforce
    then obtain idump where r: "r = Inr idump" using Cons.prems False by (cases r) simp_all
    then obtain dests where d: "in_dests (last bb) = Some dests"
      using Cons.prems False h by (cases "in_dests (last bb)") (simp_all add: Let_def)
    let ?g = "add_dests (in_address (hd bb)) dests (addVertex (in_address (hd bb)) (Some (length bb, idump)) g)"
    have "build_graph bbs ?g w1 = (Inr g', w')" using Cons.prems False h r d by (simp add: Let_def)
    from Cons.IH [OF this] show ?thesis
      using False d by (simp add: edges_add_dests addVertex_vertices block_edges_def)
  qed
qed simp

end
