(* ===== verification/Client.thy ===== *)
theory Client
  imports Strace Regmem Idump Controls Static_View
begin

text \<open>
  The client as a whole: which function each \<open>Deps.autorun\<close> of the scripts registers, and the
  interpretation of the engine's contract on them.
\<close>

definition client_body :: "arun \<Rightarrow> world \<Rightarrow> world \<times> js_error option" where
  "client_body f = (case f of
      A_history \<Rightarrow> autorun_history | A_rehighlight \<Rightarrow> autorun_rehighlight
    | A_navigateiaddr \<Rightarrow> autorun_navigateiaddr | A_select_fork \<Rightarrow> autorun_select_fork
    | A_update_controls \<Rightarrow> autorun_update_controls
    | A_setaddress_ida \<Rightarrow> autorun_setaddress_ida | A_getinstructions \<Rightarrow> autorun_getinstructions
    | A_getmemory \<Rightarrow> autorun_getmemory | A_getregisters \<Rightarrow> autorun_getregisters
    | A_datachanges \<Rightarrow> autorun_datachanges
    | A_bounds \<Rightarrow> autorun_bounds | A_change \<Rightarrow> autorun_change
    | A_getchanges_iaddr \<Rightarrow> autorun_getchanges_iaddr | A_getchanges_daddr \<Rightarrow> autorun_getchanges_daddr
    | A_redraw_strace \<Rightarrow> autorun_redraw_strace | A_sview \<Rightarrow> autorun_sview
    | A_pmaps \<Rightarrow> autorun_pmaps | A_hflag_iaddr \<Rightarrow> autorun_hflag_iaddr | A_hflag_daddr \<Rightarrow> autorun_hflag_daddr
    | A_static \<Rightarrow> autorun_static)"

section \<open>Autoruns that only read the session\<close>

lemma engine_add_bounds [simp]: "engine (fst (add_bounds mc fs w)) = engine w"
proof (induction fs arbitrary: w)
  case (Cons e fs)
  obtain k lo hi where e: "e = (k, lo, hi)" by (cases e)
  show ?case by (simp add: e Let_def Cons split: option.splits)
qed simp

lemma reads_strace_rows: "reads w (snd (strace_rows rs w))"
  by (induction rs arbitrary: w)
     (simp_all add: reads_refl, intro reads_bind, simp_all add: reads_refl reads_highlight highlight_addresses_def)

lemmas engine_strace_rows [simp] = readsD(5) [OF reads_strace_rows]

lemma engine_redraw_strace [simp]: "engine (fst (redraw_strace w)) = engine w"
proof -
  have "engine (fst (case strace_rows rs v of (Inl e, w) \<Rightarrow> (w, Some e)
      | (Inr strace, w) \<Rightarrow> (rehighlight (set_dom ''strace'' strace w), None))) = engine v" for rs v
  proof -
    obtain r v' where s: "strace_rows rs v = (r, v')" by fastforce
    then have "engine v' = engine v" by (metis engine_strace_rows snd_conv)
    with s show ?thesis by (cases r) simp_all
  qed
  then show ?thesis by (simp add: redraw_strace_def split_beta Let_def split: option.splits)
qed

lemma engine_draw_hflag [simp]: "engine (draw_hflag a n c t w) = engine w"
  by (simp add: draw_hflag_def Let_def)

lemma engine_do_ida [simp]: "engine (do_ida_socket c w) = engine w"
  by (simp add: do_ida_socket_def ws_send_def)

lemma engine_set_val [simp]: "engine (set_val i v w) = engine w"
  by (simp add: set_val_def)

lemmas body_defs = autorun_history_def autorun_rehighlight_def autorun_navigateiaddr_def
  autorun_update_controls_def autorun_setaddress_ida_def autorun_getinstructions_def
  autorun_getmemory_def autorun_getregisters_def autorun_datachanges_def autorun_bounds_def
  autorun_change_def autorun_getchanges_iaddr_def autorun_getchanges_daddr_def
  autorun_redraw_strace_def autorun_pmaps_def autorun_hflag_iaddr_def autorun_hflag_daddr_def
  autorun_static_def

text \<open>All autoruns but two leave the engine as it is.\<close>

lemma engine_body: "f \<noteq> A_select_fork \<Longrightarrow> f \<noteq> A_sview \<Longrightarrow> engine (fst (client_body f w)) = engine w"
  by (cases f) (simp_all add: client_body_def body_defs split_beta Let_def engine_and_then split: option.splits)

lemma mdeps_body [simp]: "mdeps (fst (client_body f w)) = mdeps w"
proof (cases "f = A_select_fork \<or> f = A_sview")
  case True
  then show ?thesis
    by (auto simp: client_body_def autorun_select_fork_def autorun_sview_def split_beta Let_def split: option.splits list.splits)
next
  case False
  then show ?thesis using engine_body [of f w] by (simp add: engine_def)
qed

lemma minv_select_fork: "minv w \<Longrightarrow> minv (fst (autorun_select_fork w))"
  by (auto simp: autorun_select_fork_def split_beta Let_def split: option.splits list.splits)

lemma minv_sview: "minv w \<Longrightarrow> minv (fst (autorun_sview w))"
  by (auto simp: autorun_sview_def split_beta Let_def split: option.splits)

interpretation client: reactive client_body
proof
  fix w :: world and f
  assume "minv w"
  then show "minv (fst (client_body f w))"
    using engineD(6) [OF engine_body [of f w]] minv_select_fork [of w] minv_sview [of w]
    by (cases "f = A_select_fork \<or> f = A_sview") (auto simp: client_body_def)
qed

section \<open>Dependencies\<close>

text \<open>Registering an autorun adds it to the keys its first run read.\<close>

lemma deps_of_body:
  assumes "client_body f (w\<lparr>mtrack := Some []\<rparr>) = (w', None)" and "mtrack w' = Some ks" and "mdeps w' = mdeps w"
  shows "mdeps (fst (deps_autorun client_body f w)) k = mdeps w k @ replicate (count_list ks k) f"
  using assms by (simp add: deps_autorun_def fold_add_dep)

lemma deps_getmemory:
  "mdeps (fst (deps_autorun client_body A_getmemory w)) k
     = mdeps w k @ (if k \<in> {''forknum'', ''daddr'', ''dview'', ''clnum''} then [A_getmemory] else [])"
proof -
  obtain w' r where b: "client_body A_getmemory (w\<lparr>mtrack := Some []\<rparr>) = (w', r)" by fastforce
  have w: "r = None" "mtrack w' = Some [''forknum'', ''daddr'', ''dview'', ''clnum'']" "mdeps w' = mdeps w"
    using b by (auto simp: client_body_def autorun_getmemory_def session_get_tracks set_dom_def emit_def split: if_splits)
  show ?thesis
  proof (cases "k \<in> {''forknum'', ''daddr'', ''dview'', ''clnum''}")
    case True
    then show ?thesis using deps_of_body [OF b [unfolded w(1)] w(2,3), of k] by (elim insertE) simp_all
  next
    case False
    then have "k \<notin> set [''forknum'', ''daddr'', ''dview'', ''clnum'']" by simp
    then have "count_list [''forknum'', ''daddr'', ''dview'', ''clnum''] k = 0" unfolding count_list_0_iff .
    with False show ?thesis using deps_of_body [OF b [unfolded w(1)] w(2,3), of k] by (simp only: if_False replicate_0 simp_thms)
  qed
qed

lemma deps_select_fork:
  "mdeps (fst (deps_autorun client_body A_select_fork w)) k
     = mdeps w k @ (if k = ''max_clnum'' then [A_select_fork] else [])"
proof -
  obtain w' r where b: "client_body A_select_fork (w\<lparr>mtrack := Some []\<rparr>) = (w', r)" by fastforce
  have g: "session_get x True s = (msession s x, s)" for x and s :: world
    by (simp add: session_get_def split: option.splits)
  have w: "r = None" "mtrack w' = Some [''max_clnum'']" "mdeps w' = mdeps w"
    using b by (auto simp: client_body_def autorun_select_fork_def session_get_tracks g Let_def split: if_splits option.splits list.splits)
  show ?thesis using deps_of_body [OF b [unfolded w(1)] w(2,3), of k] by (cases "k = ''max_clnum''") simp_all
qed

end
