(* ===== verification/Events.thy ===== *)
theory Events
  imports Client
begin

text \<open>
  The event loop of the client: every message of the server, every action of the user and every
  timer as one event, the function that handles it, and what holds in every state that a sequence
  of events can reach.
\<close>

section \<open>Events\<close>

text \<open>
  Everything that can happen to the client between two turns of the event loop: the armed timers,
  a script registering an autorun or setting its defaults when it is loaded, the browser's history, the messages of the server and of IDA,
  and the actions of the user.
\<close>

datatype event =
    E_timer nat | E_autorun arun | E_load_strace | E_load_controls | E_history_timer | E_back
  | E_names "(string \<times> string) list" | E_setiaddr "string option" | E_setclnum jsnum jsnum
  | E_maxclnum forks | E_pmaps "(string \<times> string) list" | E_memory memmsg
  | E_registers "register list" | E_clnum "datachange list" | E_arch "string option list \<times> jsnum"
  | E_instructions "dins list" | E_setpicture string jsnum jsnum string
  | E_changes string "(string \<times> jsnum list) list" | E_strace string "syscall list" | E_flat "ins list"
  | E_function "dot_stmt list \<Rightarrow> string" "string \<Rightarrow> point" "ins list list" gview
  | E_ws_open | E_ws_close | E_ws_message string
  | E_key tag_service prompter key_event
  | E_control_clnum string | E_control_forknum string | E_control_iaddr string | E_control_daddr string
  | E_wheel_timeline jsnum | E_wheel_strace jsnum | E_wheel_hexdump jsnum | E_wheel_idump jsnum
  | E_wheel_flat "string list" jsnum
  | E_mousedown string int jsnum | E_mouseup string int jsnum | E_contextmenu string | E_resize
  | E_haddrline_click "page_el list" jsnum | E_haddrline_contextmenu "page_el list" jsnum
  | E_click_clnum string | E_click_data string | E_click_datamemory string
  | E_click_datainstruction string | E_dblclick_datainstruction string | E_contextmenu_datainstruction string
  | E_dblclick_hexdump string | E_contextmenu_hexdump string | E_click_flag string string

fun handle :: "event \<Rightarrow> world \<Rightarrow> world \<times> js_error option" where
  "handle (E_timer t) w = (if t \<in> set (timers w) then fire_timer client_body t w else (w, None))"
| "handle (E_autorun f) w = deps_autorun client_body f w"
| "handle E_load_strace w = (strace_init w, None)"
| "handle E_load_controls w = (controls_init w, None)"
| "handle E_history_timer w = (fire_history_timer w, None)"
| "handle E_back w = (history_back w, None)"
| "handle (E_names m) w = (on_names m w, None)"
| "handle (E_setiaddr a) w = (on_setiaddr a w, None)"
| "handle (E_setclnum f c) w = (on_setclnum f c w, None)"
| "handle (E_maxclnum m) w = (on_maxclnum m w, None)"
| "handle (E_pmaps m) w = (on_pmaps m w, None)"
| "handle (E_memory m) w = on_memory m w"
| "handle (E_registers m) w = on_registers m w"
| "handle (E_clnum m) w = on_clnum m w"
| "handle (E_arch m) w = (on_arch m w, None)"
| "handle (E_instructions m) w = on_instructions m w"
| "handle (E_setpicture f lo hi d) w = on_setpicture f lo hi d w"
| "handle (E_changes t m) w = on_changes t m w"
| "handle (E_strace f d) w = on_strace f d w"
| "handle (E_flat m) w = on_flat m w"
| "handle (E_function s d b gv) w = (case on_function s d b gv w of ((gv', w'), r) \<Rightarrow> (w', r))"
| "handle E_ws_open w = (ws_open w, None)"
| "handle E_ws_close w = (ws_close w, None)"
| "handle (E_ws_message m) w = ws_onmessage m w"
| "handle (E_key tags ask e) w = onkeydown tags ask e w"
| "handle (E_control_clnum v) w = (control_clnum_change v w, None)"
| "handle (E_control_forknum v) w = (control_forknum_change v w, None)"
| "handle (E_control_iaddr v) w = (control_iaddr_change v w, None)"
| "handle (E_control_daddr v) w = control_daddr_change v w"
| "handle (E_wheel_timeline d) w = (vtimelinebox_mousewheel d w, None)"
| "handle (E_wheel_strace d) w = strace_mousewheel d w"
| "handle (E_wheel_hexdump d) w = hexdump_mousewheel d w"
| "handle (E_wheel_idump d) w = (idump_mousewheel d w, None)"
| "handle (E_wheel_flat cdr d) w = flat_mousewheel cdr d w"
| "handle (E_mousedown t b y) w = (vtimelinebox_mousedown t b y w, None)"
| "handle (E_mouseup t b y) w = (vtimelinebox_mouseup t b y w, None)"
| "handle (E_contextmenu t) w = vtimelinebox_contextmenu t w"
| "handle E_resize w = redraw_flags w"
| "handle (E_haddrline_click tt x) w = haddrline_click tt x w"
| "handle (E_haddrline_contextmenu tt x) w = (haddrline_contextmenu tt x w, None)"
| "handle (E_click_clnum s) w = (click_clnum s w, None)"
| "handle (E_click_data c) w = (click_data c w, None)"
| "handle (E_click_datamemory c) w = click_datamemory c w"
| "handle (E_click_datainstruction c) w = (click_datainstruction c w, None)"
| "handle (E_dblclick_datainstruction c) w = (dblclick_datainstruction c w, None)"
| "handle (E_contextmenu_datainstruction c) w = contextmenu_datainstruction c w"
| "handle (E_dblclick_hexdump c) w = dblclick_hexdump c w"
| "handle (E_contextmenu_hexdump c) w = (contextmenu_hexdumpdatainstruction c w, None)"
| "handle (E_click_flag p s) w = (click_flag p s w, None)"

section \<open>What every event keeps\<close>

text \<open>The engine between two events: its invariant holds, nothing is being tracked, the registered
  dependencies satisfy \<open>P\<close>, and the functions in \<open>F\<close> are queued. Only registrations change the
  dependencies, and only the timer takes functions out of the queue.\<close>

definition elive :: "((string \<Rightarrow> arun list) \<Rightarrow> bool) \<Rightarrow> arun set \<Rightarrow> (string \<Rightarrow> arun list) \<times> arun list \<times> nat option \<times> (string \<Rightarrow> sval option) \<times> nat list \<times> nat \<times> bool \<Rightarrow> bool" where
  "elive P F e = (case e of (d, p, t, s, ts, n, idle) \<Rightarrow> idle \<and> distinct p
     \<and> (ts = [] \<or> (\<exists>i. ts = [i] \<and> t = Some i)) \<and> (p \<noteq> [] \<longrightarrow> ts \<noteq> []) \<and> P d \<and> F \<subseteq> set p)"

definition live :: "world \<Rightarrow> bool" where
  "live w \<longleftrightarrow> minv w \<and> mtrack w = None"

lemma elive_iff: "elive P F (engine w) \<longleftrightarrow> live w \<and> P (mdeps w) \<and> F \<subseteq> set (mpend w)"
  by (auto simp: live_def elive_def engine_def minv_def)

lemma elive_set [simp]: "elive P F (engine w) \<Longrightarrow> elive P F (engine (session_set k v w))"
  using session_set_minv [of w k v] by (auto simp: elive_iff live_def session_set_queue)

lemma elive_setDefault [simp]: "elive P F (engine w) \<Longrightarrow> elive P F (engine (session_setDefault k v w))"
  using session_setDefault_minv [of w k v] by (auto simp: elive_iff live_def session_setDefault_idle session_set_queue)

lemma elive_base [simp]:
  assumes "elive P F (engine w)"
  shows "elive P F (engine (fst (update_dview a w)))" "elive P F (engine (update_iaddr a d w))"
    "elive P F (engine (zoom_out_max f w))" "elive P F (engine (update_maxclnum m w))"
    "elive P F (engine (onpopstate st w))"
proof -
  show "elive P F (engine (fst (update_dview a w)))" "elive P F (engine (update_iaddr a d w))"
    using assms by (simp_all add: update_dview_def update_iaddr_def Let_def split: option.splits)
  have a: "engine (snd (abs_maxclnum v)) = engine v" for v by (simp add: abs_maxclnum_def split_beta)
  have z: "elive P F (engine (zoom_out_max f v))" if "elive P F (engine v)" for f v
    using that by (simp add: zoom_out_max_def split_beta Let_def a split: option.splits)
  from z [OF assms] show "elive P F (engine (zoom_out_max f w))" .
  show "elive P F (engine (update_maxclnum m w))"
    using assms z by (simp add: update_maxclnum_def split_beta Let_def split: option.splits)
  have "elive P F (engine v) \<Longrightarrow> elive P F (engine (fold (\<lambda>(k, x) w. if loose_neq (msession w k) x then session_set k x w else w) kvs v))"
    for kvs :: hstate and v by (induction kvs arbitrary: v) (auto)
  then show "elive P F (engine (onpopstate st w))" using assms by (simp add: onpopstate_def split: option.splits)
qed

lemma engine_abs_maxclnum [simp]: "engine (snd (abs_maxclnum w)) = engine w"
  by (simp add: abs_maxclnum_def split_beta)

lemma engine_get_clnum [simp]: "engine (snd (get_clnum t y w)) = engine w"
  by (simp add: get_clnum_def split_beta Let_def split: option.splits)

lemma engine_names [simp]: "engine (on_names m w) = engine w"
  by (induction m arbitrary: w) (auto simp: on_names_def)

lemma engine_fold_reg_flag [simp]: "engine (fold reg_flag rs w) = engine w"
  by (induction rs arbitrary: w) (simp_all add: reg_flag_def Let_def split: option.splits)

lemma engine_redraw_reg_flags [simp]: "engine (redraw_reg_flags w) = engine w"
  by (simp add: redraw_reg_flags_def Let_def split: option.splits)

lemma engine_regs_loop [simp]: "engine (snd (regs_loop fin rs w)) = engine w"
proof (induction rs arbitrary: fin w)
  case (Cons r rs)
  define w1 where "w1 = draw_hflag (r_value (rename_reg r)) (r_name (rename_reg r)) (reg_color (r_num (rename_reg r))) False
    (w\<lparr>current_regs := Some (fin @ rename_reg r # rs)\<rparr>)"
  have 1: "engine w1 = engine w" by (simp add: w1_def)
  obtain x w2 where g: "get_data_type (VStr (r_value (rename_reg r))) False w1 = (x, w2)" by fastforce
  then have 2: "engine w2 = engine w1" by (metis engine_highlight(2) snd_conv)
  obtain y w3 where l: "regs_loop (fin @ [rename_reg r]) rs w2 = (y, w3)" by fastforce
  then have 3: "engine w3 = engine w2" by (metis Cons snd_conv)
  have "snd (regs_loop fin (r # rs) w) = (case x of Inl e \<Rightarrow> w2 | Inr cl \<Rightarrow> w3)"
    using g l by (cases x; cases y) (simp_all add: Let_def flip: w1_def)
  with 1 2 3 show ?case by (cases x) simp_all
qed simp

text \<open>What the handlers put together from highlighted text only reads the state.\<close>

lemma reads_changes_html: "reads w (snd (changes_html dcs w))"
  by (induction dcs arbitrary: w)
     (simp_all add: reads_refl Let_def split del: if_split, intro reads_bind, simp_all add: reads_refl reads_get_data_type)

lemma reads_ins_html: "reads w (snd (instruction_html_from_tags i w))"
  using reads_highlight [of w "in_instruction i" True]
  by (auto simp: instruction_html_from_tags_def Let_def reads_refl split: option.splits sum.splits prod.splits)

lemma reads_instructions_html: "reads w (snd (instructions_html is w))"
  by (induction "is" arbitrary: w)
     (simp_all add: reads_refl, intro reads_bind, simp_all add: reads_refl reads_ins_html)

lemma reads_build_graph: "reads w (snd (build_graph bbs g w))"
proof (induction bbs arbitrary: g w)
  case (Cons bb bbs)
  show ?case
  proof (cases "bb = []")
    case False
    then show ?thesis
      by (simp add: Let_def, intro reads_bind)
         (auto simp: reads_refl reads_instructions_html Cons Let_def split: option.splits)
  qed (simp add: Cons)
qed (simp add: reads_refl)

lemmas engine_read [simp] = readsD(5) [OF reads_changes_html] readsD(5) [OF reads_instructions_html]
  readsD(5) [OF reads_build_graph]

lemma elive_instructions_loop [simp]: "elive P F (engine w) \<Longrightarrow> elive P F (engine (snd (instructions_loop c is w)))"
proof (induction "is" arbitrary: w)
  case (Cons i "is")
  define w1 where "w1 = (if c = Some (VNum (di_clnum i)) \<and> di_clnum i \<noteq> NaN
               then session_set ''iview'' (Some (VStr (di_address i))) (session_set ''iaddr'' (Some (VStr (di_address i))) w)
               else w)"
  have 1: "elive P F (engine w1)" using Cons.prems by (simp add: w1_def)
  obtain x w2 where h: "highlight_instruction (di_instruction i) True w1 = (x, w2)" by fastforce
  then have 2: "elive P F (engine w2)" using 1 by (metis engine_highlight(1) snd_conv)
  obtain y w3 where l: "instructions_loop c is w2 = (y, w3)" by fastforce
  then have 3: "elive P F (engine w3)" using Cons.IH [OF 2] by simp
  have "snd (instructions_loop c (i # is) w) = (case x of Inl e \<Rightarrow> w2 | Inr d \<Rightarrow> w3)"
    using h l by (cases x; cases y) (simp_all add: Let_def flip: w1_def)
  with 2 3 show ?case by (cases x) simp_all
qed simp

lemma reads_memory_loop:
  assumes "memory_loop msg i w = Some p"
  shows "reads w (snd p)"
proof (rule memory_loop.raw_induct [where P = "\<lambda>msg i w p. reads w (snd p)", OF _ assms], goal_cases)
  case (1 loop msg i w p)
  obtain x w1 where g: "get_data_type (VStr (mem_word msg i)) False w = (x, w1)" by fastforce
  then have e: "reads w w1" using reads_get_data_type [of w "VStr (mem_word msg i)" False] by simp
  show ?case
  proof (cases "i < mm_len msg")
    case True
    show ?thesis
    proof (cases x)
      case (Inl er)
      with True g e 1(2) show ?thesis by (auto simp: Let_def)
    next
      case (Inr a)
      then obtain q where q: "loop msg (i + mm_ptrsize msg) w1 = Some q" "snd p = snd q"
      proof (cases "loop msg (i + mm_ptrsize msg) w1")
        case None
        with True g 1(2) Inr show ?thesis by (simp add: Let_def split_beta)
      next
        case (Some q)
        obtain r v where q: "q = (r, v)" by (cases q)
        have "snd p = v" using True g 1(2) Inr Some q by (cases r) (auto simp: Let_def split_beta)
        with that [of q] Some q show ?thesis by simp
      qed
      with 1(1) reads_trans [OF e] show ?thesis by simp
    qed
  qed (use 1(2) reads_refl [of w] in auto)
qed

lemma elive_memory [simp]: "elive P F (engine w) \<Longrightarrow> elive P F (engine (fst (on_memory msg w)))"
proof -
  assume w: "elive P F (engine w)"
  obtain v w1 where g: "session_get ''daddr'' False w = (v, w1)" by fastforce
  then have 1: "engine w1 = engine w" by (metis engine_get snd_conv)
  show ?thesis
  proof (cases "memory_loop msg 0 w1")
    case None
    with w g 1 show ?thesis by (simp add: on_memory_def)
  next
    case (Some p)
    obtain r w2 where p: "p = (r, w2)" by (cases p)
    then have "engine w2 = engine w" using readsD(5) [OF reads_memory_loop [OF Some]] 1 by simp
    with w g Some p show ?thesis by (cases r) (auto simp: on_memory_def Let_def split: prod.splits)
  qed
qed

lemma elive_messages [simp]:
  assumes "elive P F (engine w)"
  shows "elive P F (engine (fst (on_registers rs w)))" "elive P F (engine (fst (on_clnum dcs w)))"
    "elive P F (engine (fst (on_instructions is w)))" "elive P F (engine (fst (on_flat fl w)))"
    "elive P F (engine (snd (fst (on_function sv dims bbs gv w))))" "elive P F (engine (fst (on_strace f d w)))"
    "elive P F (engine (fst (on_changes t m w)))" "elive P F (engine (fst (ws_onmessage s w)))"
proof -
  have r: "engine (snd (regs_loop [] rs v)) = engine v" for v by simp
  show "elive P F (engine (fst (on_registers rs w)))"
    using assms r by (cases "regs_loop [] rs (redraw_reg_flags (w\<lparr>current_regs := Some rs\<rparr>))")
      (auto simp: on_registers_def Let_def split: sum.splits, (metis snd_conv engine_client(10) engine_redraw_reg_flags engine_regs_loop)+)
  show "elive P F (engine (fst (on_clnum dcs w)))"
    using assms engine_read(1) [where w = w and dcs = dcs] by (cases "changes_html dcs w") (auto simp: on_clnum_def simp del: engine_read split: sum.splits)
  show "elive P F (engine (fst (on_strace f d w)))" using assms by (simp add: on_strace_def)
  show "elive P F (engine (fst (on_flat fl w)))"
    using assms engine_read(2) [of fl w]
    by (cases "instructions_html fl w") (auto simp: on_flat_def display_flat_def and_then_def simp del: engine_read split: sum.splits)
  show "elive P F (engine (snd (fst (on_function sv dims bbs gv w))))"
    using assms engine_read(3) [where w = w and bbs = bbs and g = new_graph]
    by (cases "build_graph bbs new_graph w")
       (auto simp: on_function_def simp del: engine_read split: sum.splits prod.splits option.splits)
  show "elive P F (engine (fst (on_changes t m w)))"
    using assms by (auto simp: on_changes_def select_closest_def split_beta Let_def split: option.splits)
  show "elive P F (engine (fst (on_instructions is w)))"
  proof -
    obtain v w1 where g: "session_get ''clnum'' False w = (v, w1)" by fastforce
    then have "elive P F (engine w1)" using assms by (metis engine_get snd_conv)
    then have "elive P F (engine (snd (instructions_loop v is w1)))" by simp
    with g show ?thesis by (cases "instructions_loop v is w1") (auto simp: on_instructions_def split: sum.splits)
  qed
  show "elive P F (engine (fst (ws_onmessage s w)))"
  proof -
    define dat where "dat = js_split CHR '' '' s"
    show ?thesis
    proof (cases "hd dat = ''setdaddr''")
      case True
      obtain x w2 where g: "get_data_type (VStr (dat ! 1)) False w = (x, w2)" by fastforce
      then have "elive P F (engine w2)" using assms by (metis engine_highlight(2) snd_conv)
      with True assms g show ?thesis
        by (cases x) (auto simp: ws_onmessage_def Let_def simp flip: dat_def)
    next
      case False
      with assms show ?thesis by (simp add: ws_onmessage_def Let_def flip: dat_def)
    qed
  qed
qed

lemma elive_history [simp]: "elive P F (engine w) \<Longrightarrow> elive P F (engine (history_back w))"
  "elive P F (engine w) \<Longrightarrow> elive P F (engine (fire_history_timer w))"
  by (simp_all add: history_back_def fire_history_timer_def split: list.splits nat.splits)

lemma elive_go_to_flag [simp]: "elive P F (engine w) \<Longrightarrow> elive P F (engine (go_to_flag n d w))"
  by (simp add: go_to_flag_def split_beta Let_def split: option.splits)

lemma elive_delete_all_forks [simp]: "elive P F (engine w) \<Longrightarrow> elive P F (engine (fst (delete_all_forks w)))"
proof -
  have "engine (fold (\<lambda>(k, _). emit ''deletefork'' [Some (VNum (fdec k))]) fs v) = engine v" for fs :: forks and v
    by (induction fs arbitrary: v) auto
  then show "elive P F (engine w) \<Longrightarrow> ?thesis" by (simp add: delete_all_forks_def split_beta Let_def)
qed

lemma elive_move_clnum [simp]: "elive P F (engine w) \<Longrightarrow> elive P F (engine (move_clnum k w))"
  by (simp add: move_clnum_def split_beta)

lemma elive_keys [simp]:
  assumes "elive P F (engine w)"
  shows "elive P F (engine (fst (key_forks l w)))" "elive P F (engine (key_make s w))" "elive P F (engine (key_function b w))"
    "elive P F (engine (fst (key_args tags ask w)))" "elive P F (engine (fst (key_tag tags ask sh tn w)))"
    "elive P F (engine (key_goto ask w))"
  using assms
  by (simp_all add: key_forks_def key_make_def key_function_def key_args_def key_tag_def key_goto_def
      split_beta Let_def split: option.splits)

lemma elive_keydown [simp]: "elive P F (engine w) \<Longrightarrow> elive P F (engine (fst (onkeydown tags ask e w)))"
  by (simp add: onkeydown_def Let_def split_beta)

lemma elive_mouse [simp]:
  assumes "elive P F (engine w)"
  shows "elive P F (engine (vtimelinebox_mousewheel d w))" "elive P F (engine (vtimelinebox_mousedown t b y w))"
    "elive P F (engine (vtimelinebox_mouseup t b y w))" "elive P F (engine (fst (vtimelinebox_contextmenu t w)))"
    "elive P F (engine (fst (strace_mousewheel d w)))" "elive P F (engine (fst (hexdump_mousewheel d w)))"
    "elive P F (engine (idump_mousewheel d w))" "elive P F (engine (fst (flat_mousewheel cdr d w)))"
    "elive P F (engine (fst (haddrline_click tt x w)))" "elive P F (engine (haddrline_contextmenu tt x w))"
  using assms
  by (simp_all add: vtimelinebox_mousewheel_def vtimelinebox_mousedown_def vtimelinebox_mouseup_def
      vtimelinebox_contextmenu_def strace_mousewheel_def hexdump_mousewheel_def idump_mousewheel_def
      flat_mousewheel_def haddrline_click_def haddrline_contextmenu_def split_beta Let_def split: option.splits)

lemmas small_handlers = on_setiaddr_def on_setclnum_def on_maxclnum_def on_pmaps_def on_arch_def on_setpicture_def
  ws_open_def ws_close_def ws_send_def control_clnum_change_def control_forknum_change_def control_iaddr_change_def
  control_daddr_change_def click_clnum_def click_data_def click_datamemory_def click_datainstruction_def
  dblclick_datainstruction_def contextmenu_datainstruction_def dblclick_hexdump_def
  contextmenu_hexdumpdatainstruction_def click_flag_def strace_init_def controls_init_def

text \<open>A body keeps the engine live, and so does running the queue.\<close>

lemma elive_body: "elive P F (engine w) \<Longrightarrow> elive P F (engine (fst (client_body f w)))"
proof (cases "f = A_select_fork \<or> f = A_sview")
  case True
  then show "elive P F (engine w) \<Longrightarrow> ?thesis"
    by (auto simp: client_body_def autorun_select_fork_def autorun_sview_def split_beta Let_def split: option.splits list.splits)
qed (simp add: engine_body)

lemma elive_run_pending: "elive P F (engine w) \<Longrightarrow> elive P F (engine (fst (run_pending client_body fs w)))"
proof (induction fs arbitrary: w)
  case (Cons f fs)
  obtain w' r where b: "client_body f w = (w', r)" by fastforce
  then have "elive P F (engine w')" using elive_body [OF Cons.prems, of f] by simp
  with Cons.IH b show ?case by (cases r) simp_all
qed simp

lemma body_queue: "set (mpend w) \<subseteq> set (mpend (fst (client_body f w)))"
proof (cases "f = A_select_fork \<or> f = A_sview")
  case True
  then show ?thesis
    by (auto simp: client_body_def autorun_select_fork_def autorun_sview_def session_set_queue split_beta Let_def
        split: option.splits list.splits)
next
  case False
  then show ?thesis using engine_body [of f w] by (simp add: engine_def)
qed

lemma elive_fire_timer: "elive P F (engine w) \<Longrightarrow> t \<in> set (timers w) \<Longrightarrow> elive P {} (engine (fst (fire_timer client_body t w)))"
  unfolding fire_timer_def session_process_def
  by (rule elive_run_pending) (auto simp: elive_def engine_def)

lemma elive_deps_autorun:
  assumes "elive P F (engine w)" and "snd (deps_autorun client_body f w) = None"
    and "P (mdeps (fst (deps_autorun client_body f w)))"
  shows "elive P F (engine (fst (deps_autorun client_body f w)))"
proof -
  have "live (fst (deps_autorun client_body f w))"
    using client.deps_autorun_minv [of w f] assms
    by (auto simp: elive_iff live_def deps_autorun_def Let_def split: prod.splits option.splits)
  moreover have "mpend (fst (deps_autorun client_body f w)) = mpend (fst (client_body f (w\<lparr>mtrack := Some []\<rparr>)))"
    by (simp add: deps_autorun_def Let_def split: prod.splits option.splits)
  then have "set (mpend w) \<subseteq> set (mpend (fst (deps_autorun client_body f w)))"
    using body_queue [of "w\<lparr>mtrack := Some []\<rparr>" f] by simp
  ultimately show ?thesis using assms(1,3) by (auto simp: elive_iff)
qed

lemma handle_elive:
  assumes "elive P F (engine w)" and "\<And>t. e = E_timer t \<Longrightarrow> F = {}"
    and "\<And>f. e = E_autorun f \<Longrightarrow> snd (deps_autorun client_body f w) = None \<and> P (mdeps (fst (deps_autorun client_body f w)))"
  shows "elive P F (engine (fst (handle e w)))"
proof (cases "\<exists>t. e = E_timer t \<or> (\<exists>f. e = E_autorun f)")
  case True
  then obtain t f where "e = E_timer t \<or> e = E_autorun f" by blast
  then show ?thesis
  proof
    assume "e = E_timer t"
    then show ?thesis using assms(1,2) elive_fire_timer [OF assms(1), of t] by (auto)
  next
    assume "e = E_autorun f"
    then show ?thesis using assms(1,3) elive_deps_autorun [OF assms(1)] by simp
  qed
next
  case False
  with assms(1) show ?thesis
    by (cases e) (simp_all add: small_handlers Let_def split_beta split: option.splits)
qed

lemma handle_live: "live w \<Longrightarrow> (\<And>f. e = E_autorun f \<Longrightarrow> snd (deps_autorun client_body f w) = None) \<Longrightarrow> live (fst (handle e w))"
  using handle_elive [of "\<lambda>_. True" "{}" w e] by (simp add: elive_iff)

text \<open>Registering a function adds it, and nothing else, to the keys it has read.\<close>

lemma registered_deps:
  assumes "snd (deps_autorun client_body f w) = None"
  obtains ks where "mtrack (fst (client_body f (w\<lparr>mtrack := Some []\<rparr>))) = Some ks \<or> ks = []"
    and "\<And>k. mdeps (fst (deps_autorun client_body f w)) k = mdeps w k @ replicate (count_list ks k) f"
proof -
  let ?w = "w\<lparr>mtrack := Some []\<rparr>"
  obtain w' r where b: "client_body f ?w = (w', r)" by fastforce
  have r: "r = None" using assms b by (cases r) (simp_all add: deps_autorun_def)
  have d: "mdeps w' = mdeps w" using mdeps_body [of f ?w] b by simp
  define ks where "ks = (case mtrack w' of Some tr \<Rightarrow> tr | None \<Rightarrow> [])"
  have "mdeps (fst (deps_autorun client_body f w)) k = mdeps w k @ replicate (count_list ks k) f" for k
    using b r d by (simp add: deps_autorun_def ks_def fold_add_dep)
  moreover have "mtrack w' = Some ks \<or> ks = []" by (simp add: ks_def split: option.splits)
  ultimately show thesis using that b by simp
qed

lemma registered_more: "snd (deps_autorun client_body f w) = None \<Longrightarrow> set (mdeps w k) \<subseteq> set (mdeps (fst (deps_autorun client_body f w)) k)"
  by (erule registered_deps [of f w]) simp

section \<open>Reachable states\<close>

text \<open>
  The states of a session: it starts with empty objects, and each event is handled to its end. A
  script whose autorun throws at its first run is not loaded further, so registrations do not throw.
\<close>

inductive reachable :: "world \<Rightarrow> bool" where
  start: "reachable w0"
| event: "reachable w \<Longrightarrow> (\<And>f. e = E_autorun f \<Longrightarrow> snd (deps_autorun client_body f w) = None) \<Longrightarrow>
    reachable (fst (handle e w))"

lemma live_w0: "live w0"
  by (simp add: live_def minv_def)

lemma reachable_live: "reachable w \<Longrightarrow> live w"
  by (induction rule: reachable.induct) (auto simp: live_w0 intro: handle_live)

fun run_events :: "event list \<Rightarrow> world \<Rightarrow> world" where
  "run_events [] w = w"
| "run_events (e # es) w = run_events es (fst (handle e w))"

text \<open>Sequences of events in which no registration throws; the dependencies only grow.\<close>

fun loads_ok :: "event list \<Rightarrow> world \<Rightarrow> bool" where
  "loads_ok [] w = True"
| "loads_ok (e # es) w = ((\<forall>f. e = E_autorun f \<longrightarrow> snd (deps_autorun client_body f w) = None)
     \<and> loads_ok es (fst (handle e w)))"

lemma run_events_reachable: "reachable w \<Longrightarrow> loads_ok es w \<Longrightarrow> reachable (run_events es w)"
proof (induction es arbitrary: w)
  case (Cons e es)
  have "reachable (fst (handle e w))" by (rule reachable.event [OF Cons.prems(1)]) (use Cons.prems(2) in simp)
  with Cons.IH Cons.prems(2) show ?case by simp
qed simp

lemma run_events_deps:
  assumes "live w" and "loads_ok es w"
  shows "live (run_events es w) \<and> (\<forall>k. set (mdeps w k) \<subseteq> set (mdeps (run_events es w) k))"
  using assms
proof (induction es arbitrary: w)
  case (Cons e es)
  let ?P = "\<lambda>d. \<forall>k. set (mdeps w k) \<subseteq> set (d k)"
  have "elive ?P {} (engine (fst (handle e w)))"
    by (rule handle_elive [OF _ refl]) (use Cons.prems registered_more in \<open>auto simp: elive_iff\<close>)
  with Cons.IH [of "fst (handle e w)"] Cons.prems(2) show ?case by (force simp: elive_iff)
qed simp

text \<open>Until the timer fires, what is queued stays queued.\<close>

definition no_timer :: "event list \<Rightarrow> bool" where
  "no_timer es \<longleftrightarrow> (\<forall>t. E_timer t \<notin> set es)"

lemma run_events_queue:
  assumes "live w" and "loads_ok es w" and "no_timer es"
  shows "live (run_events es w) \<and> set (mpend w) \<subseteq> set (mpend (run_events es w))"
  using assms
proof (induction es arbitrary: w)
  case (Cons e es)
  have "elive (\<lambda>_. True) (set (mpend w)) (engine (fst (handle e w)))"
    by (rule handle_elive) (use Cons.prems in \<open>auto simp: elive_iff no_timer_def\<close>)
  then have "live (fst (handle e w))" "set (mpend w) \<subseteq> set (mpend (fst (handle e w)))" by (simp_all add: elive_iff)
  with Cons.IH [of "fst (handle e w)"] Cons.prems(2,3) show ?case by (auto simp: no_timer_def)
qed simp

section \<open>The engine comes to rest\<close>

text \<open>Only two functions set keys: the selection of a fork, and the window of the system calls; they
  are registered under no key but these.\<close>

definition deps_only :: "(string \<Rightarrow> arun list) \<Rightarrow> bool" where
  "deps_only d \<longleftrightarrow> (\<forall>k. (A_select_fork \<in> set (d k) \<longrightarrow> k = ''max_clnum'') \<and> (A_sview \<in> set (d k) \<longrightarrow> k \<in> {''forknum'', ''clnum''}))"

lemma sview_tracks:
  "mtrack w = Some [] \<Longrightarrow> mtrack (fst (client_body A_sview w)) = Some [''forknum'', ''clnum'']"
  by (simp add: client_body_def autorun_sview_def session_get_tracks split_beta Let_def split: option.splits)

lemma registered_only:
  assumes "deps_only (mdeps w)" and "snd (deps_autorun client_body f w) = None"
  shows "deps_only (mdeps (fst (deps_autorun client_body f w)))"
proof (cases "f = A_select_fork")
  case True
  with assms(1) show ?thesis unfolding deps_only_def by (simp add: deps_select_fork)
next
  case False
  from registered_deps [OF assms(2)] obtain ks where
    ks: "mtrack (fst (client_body f (w\<lparr>mtrack := Some []\<rparr>))) = Some ks \<or> ks = []"
      "\<And>k. mdeps (fst (deps_autorun client_body f w)) k = mdeps w k @ replicate (count_list ks k) f" by blast
  have "f = A_sview \<Longrightarrow> set ks \<subseteq> {''forknum'', ''clnum''}" using ks(1) sview_tracks [of "w\<lparr>mtrack := Some []\<rparr>"] by auto
  then have "f = A_sview \<Longrightarrow> 0 < count_list ks k \<Longrightarrow> k \<in> {''forknum'', ''clnum''}" for k by (auto simp: count_list_pos)
  with assms(1) ks(2) False show ?thesis unfolding deps_only_def by auto
qed

lemma reachable_deps_only: "reachable w \<Longrightarrow> deps_only (mdeps w)"
proof -
  assume "reachable w"
  then have "elive deps_only {} (engine w)"
  proof (induction rule: reachable.induct)
    case start
    then show ?case by (simp add: elive_iff live_w0 deps_only_def)
  next
    case (event w e)
    show ?case by (rule handle_elive [OF event.IH refl]) (use event registered_only in \<open>auto simp: elive_iff\<close>)
  qed
  then show ?thesis by (simp add: elive_iff)
qed

text \<open>What a function can queue.\<close>

definition wakes :: "arun list \<Rightarrow> arun set" where
  "wakes fs = (if A_select_fork \<in> set fs then - {A_select_fork}
     else if A_sview \<in> set fs then - {A_select_fork, A_sview} else {})"

lemma body_wakes:
  assumes "deps_only (mdeps w)"
  shows "set (mpend (fst (client_body f w))) \<subseteq> set (mpend w) \<union> wakes [f]"
proof -
  have n: "A_select_fork \<notin> set (mdeps w ''forknum'')" "A_select_fork \<notin> set (mdeps w ''clnum'')"
    "A_select_fork \<notin> set (mdeps w ''sview'')" "A_sview \<notin> set (mdeps w ''sview'')"
    using assms by (auto simp: deps_only_def)
  consider "f = A_select_fork" | "f = A_sview" | "f \<noteq> A_select_fork" "f \<noteq> A_sview" by blast
  then show ?thesis
  proof cases
    case 1
    then show ?thesis using n
      by (auto simp: wakes_def client_body_def autorun_select_fork_def session_set_queue split_beta Let_def
          split: option.splits list.splits)
  next
    case 2
    then show ?thesis using n
      by (auto simp: wakes_def client_body_def autorun_sview_def session_set_queue split_beta Let_def split: option.splits)
  next
    case 3
    then show ?thesis using engine_body [of f w] by (simp add: engine_def)
  qed
qed

lemma run_pending_wakes:
  assumes "deps_only (mdeps w)"
  shows "set (mpend (fst (run_pending client_body fs w))) \<subseteq> set (mpend w) \<union> wakes fs"
  using assms
proof (induction fs arbitrary: w)
  case (Cons f fs)
  obtain w' r where b: "client_body f w = (w', r)" by fastforce
  have f: "set (mpend w') \<subseteq> set (mpend w) \<union> wakes [f]" using body_wakes [OF Cons.prems, of f] b by simp
  have "deps_only (mdeps w')" using Cons.prems mdeps_body [of f w] b by simp
  note IH = Cons.IH [OF this]
  have m: "wakes [f] \<subseteq> wakes (f # fs)" "wakes fs \<subseteq> wakes (f # fs)" by (auto simp: wakes_def)
  show ?case
  proof (cases r)
    case None
    then show ?thesis using b f IH m by simp blast
  next
    case (Some e)
    then show ?thesis using b f m by auto
  qed
qed simp

lemma run_pending_rest:
  assumes "A_select_fork \<notin> set fs" and "A_sview \<notin> set fs"
  shows "engine (fst (run_pending client_body fs w)) = engine w"
  using assms
proof (induction fs arbitrary: w)
  case (Cons f fs)
  obtain w' r where b: "client_body f w = (w', r)" by fastforce
  then have "engine w' = engine w" using engine_body [of f w] Cons.prems by auto
  with b Cons show ?case by (cases r) simp_all
qed simp

text \<open>The browser lets the armed timer, if there is one, fire.\<close>

definition fire_next :: "world \<Rightarrow> world" where
  "fire_next w = (case timers w of [] \<Rightarrow> w | t # ts \<Rightarrow> fst (handle (E_timer t) w))"

lemma fire_next_timer: "timers w = [t] \<Longrightarrow> fire_next w = fst (run_pending client_body (mpend w) (w\<lparr>timers := [], mpend := []\<rparr>))"
  by (simp add: fire_next_def fire_timer_def session_process_def)

lemma live_timers: "live w \<Longrightarrow> (timers w = [] \<and> mpend w = []) \<or> (\<exists>t. timers w = [t])"
  by (auto simp: live_def minv_def)

lemma fire_next_elive: "elive P {} (engine w) \<Longrightarrow> elive P {} (engine (fire_next w))"
  using elive_fire_timer [of P "{}" w] by (auto simp: fire_next_def split: list.splits)

lemma fire_next_wakes:
  assumes "elive deps_only {} (engine w)"
  shows "set (mpend (fire_next w)) \<subseteq> wakes (mpend w)"
proof -
  have "live w" "deps_only (mdeps w)" using assms by (simp_all add: elive_iff)
  with live_timers [OF this(1)] run_pending_wakes [of "w\<lparr>timers := [], mpend := []\<rparr>" "mpend w"] show ?thesis
    by (elim disjE exE) (simp_all add: fire_next_timer, simp add: fire_next_def)
qed

lemma fire_next_rest:
  assumes "live w" and "A_select_fork \<notin> set (mpend w)" and "A_sview \<notin> set (mpend w)"
  shows "mpend (fire_next w) = [] \<and> timers (fire_next w) = []"
  using live_timers [OF assms(1)]
proof
  assume "\<exists>t. timers w = [t]"
  then show ?thesis using run_pending_rest [OF assms(2,3), of "w\<lparr>timers := [], mpend := []\<rparr>"]
    by (auto simp: fire_next_timer engine_def)
qed (simp add: fire_next_def)

text \<open>Apart from the selected fork and change and the window of the system calls, the selection stays.\<close>

lemma body_keys: "k \<notin> {''forknum'', ''clnum'', ''sview''} \<Longrightarrow> msession (fst (client_body f w)) k = msession w k"
proof (cases "f = A_select_fork \<or> f = A_sview")
  case True
  then show "k \<notin> {''forknum'', ''clnum'', ''sview''} \<Longrightarrow> ?thesis"
    by (auto simp: client_body_def autorun_select_fork_def autorun_sview_def split_beta Let_def split: option.splits list.splits)
next
  case False
  then show ?thesis using engine_body [of f w] by (simp add: engine_def)
qed

lemma run_pending_keys:
  "k \<notin> {''forknum'', ''clnum'', ''sview''} \<Longrightarrow> msession (fst (run_pending client_body fs w)) k = msession w k"
proof (induction fs arbitrary: w)
  case (Cons f fs)
  obtain w' r where b: "client_body f w = (w', r)" by fastforce
  then have "msession w' k = msession w k" using body_keys [OF Cons.prems, of f w] by simp
  with b Cons show ?case by (cases r) simp_all
qed simp

lemma fire_next_keys: "k \<notin> {''forknum'', ''clnum'', ''sview''} \<Longrightarrow> msession (fire_next w) k = msession w k"
  by (auto simp: fire_next_def fire_timer_def session_process_def run_pending_keys split: list.splits)

lemma rests_after_three:
  assumes "reachable w"
  shows "mpend (fire_next (fire_next (fire_next w))) = [] \<and> timers (fire_next (fire_next (fire_next w))) = []"
proof -
  have 0: "elive deps_only {} (engine w)" using assms reachable_live reachable_deps_only by (simp add: elive_iff)
  note 1 = fire_next_elive [OF 0] and 2 = fire_next_elive [OF fire_next_elive [OF 0]]
  have "A_select_fork \<notin> set (mpend (fire_next w))"
    using fire_next_wakes [OF 0] by (auto simp: wakes_def split: if_splits)
  then have "A_select_fork \<notin> set (mpend (fire_next (fire_next w))) \<and> A_sview \<notin> set (mpend (fire_next (fire_next w)))"
    using fire_next_wakes [OF 1] by (auto simp: wakes_def split: if_splits)
  with fire_next_rest 2 show ?thesis by (simp add: elive_iff)
qed

end
