(* ===== verification/Requests.thy ===== *)
theory Requests
  imports Events
begin

text \<open>
  The requests the client sends: which messages each registered function emits for a selection, and
  that processing the queue emits exactly those.
\<close>

section \<open>Specification\<close>

text \<open>The scale of the timeline, from the session and the height of its box.\<close>

definition cscale_of :: "(string \<Rightarrow> sval option) \<Rightarrow> jsnum option \<Rightarrow> jsnum option" where
  "cscale_of s h = (case (pair_of (s ''cview''), h) of
     (Some (c0, c1), Some hh) \<Rightarrow> Some (js_div (js_sub c1 c0) (js_sub hh (ji 100))) | _ \<Rightarrow> None)"

definition changes_request :: "(string \<Rightarrow> sval option) \<Rightarrow> jsnum option \<Rightarrow> string \<Rightarrow> string \<Rightarrow> emission" where
  "changes_request s h key kind = (''getchanges'',
     [Some (VNum (ji (- 1))), s key, Some (VStr kind), s ''cview'', map_option VNum (cscale_of s h), s ''clnum''])"

text \<open>Registers and memory are asked for as they were before the selected change.\<close>

definition requests :: "(string \<Rightarrow> sval option) \<Rightarrow> jsnum option \<Rightarrow> arun \<Rightarrow> emission list" where
  "requests s h f = (case f of
      A_navigateiaddr \<Rightarrow> [(''navigateiaddr'', [s ''iaddr''])]
    | A_getinstructions \<Rightarrow> [(''getinstructions'', [s ''forknum'', s ''clnum'', minus_num (s ''clnum'') 8,
         Some (VNum (js_add (num_of (s ''clnum'')) (ji 16)))])]
    | A_getmemory \<Rightarrow> (if s ''dview'' = None then []
         else [(''getmemory'', [s ''forknum'', minus_num (s ''clnum'') 1, s ''dview'', Some (VNum (ji 0x200))])])
    | A_getregisters \<Rightarrow> [(''getregisters'', [s ''forknum'', minus_num (s ''clnum'') 1])]
    | A_datachanges \<Rightarrow> [(''getclnum'', [s ''forknum'', s ''clnum'', Some (VArr [VStr ''L'', VStr ''S'']), Some (VNum (ji 2))])]
    | A_getchanges_iaddr \<Rightarrow> [changes_request s h ''iaddr'' ''I'']
    | A_getchanges_daddr \<Rightarrow> [changes_request s h ''daddr'' ''L'', changes_request s h ''daddr'' ''S'']
    | A_static \<Rightarrow> (if s ''iview'' = None then []
         else [(''getstaticview'', [s ''iview'', s ''flat'', Some (VPair (ji (- 15)) (ji 40))])])
    | _ \<Rightarrow> [])"

section \<open>Which functions emit\<close>

text \<open>The part of the state that requests depend on beside the session.\<close>

definition io :: "world \<Rightarrow> emission list \<times> jsnum option" where
  "io w = (emits w, box_height w)"

lemma io_client [simp]:
  "io (w\<lparr>hist_back := x1\<rparr>) = io w" "io (w\<lparr>hist_cur := x2\<rparr>) = io w"
  "io (w\<lparr>hist_fwd := x3\<rparr>) = io w" "io (w\<lparr>hist_timers := x4\<rparr>) = io w" "io (w\<lparr>flags := x6\<rparr>) = io w"
  "io (w\<lparr>overlays := x7\<rparr>) = io w" "io (w\<lparr>traces := x8\<rparr>) = io w"
  "io (w\<lparr>names_cache := x9\<rparr>) = io w" "io (w\<lparr>current_regs := x10\<rparr>) = io w"
  "io (w\<lparr>arch := x11\<rparr>) = io w" "io (w\<lparr>vtimelines := x12\<rparr>) = io w"
  "io (w\<lparr>pchunk_dom := x13\<rparr>) = io w" "io (w\<lparr>hflags := x14\<rparr>) = io w"
  "io (w\<lparr>hl_classes := x19\<rparr>) = io w" "io (w\<lparr>hli_classes := x20\<rparr>) = io w"
  "io (w\<lparr>mem_cells := x21\<rparr>) = io w" "io (w\<lparr>rflags := x23\<rparr>) = io w"
  "io (w\<lparr>ws_st := x24\<rparr>) = io w" "io (w\<lparr>ws_onopen := x25\<rparr>) = io w" "io (w\<lparr>ws_sent := x26\<rparr>) = io w"
  "io (w\<lparr>mpend := x27\<rparr>) = io w" "io (w\<lparr>timers := x28\<rparr>) = io w"
  by (simp_all add: io_def)

lemma io_session [simp]:
  "io (snd (session_get k d w)) = io w" "io (session_set k v w) = io w" "io (set_dom i h w) = io w"
  by (simp_all add: io_def set_dom_def)

lemma io_emit [simp]: "io (emit n a w) = (emits w @ [(n, a)], box_height w)"
  by (simp add: io_def emit_def)

lemma io_gets [simp]: "io (snd (session_gets ks w)) = io w"
  by (induction ks arbitrary: w) (simp_all add: split_beta)

lemma io_and_then: "(\<And>w. io (fst (g w)) = io w) \<Longrightarrow> io (fst (and_then r g)) = io (fst r)"
  by (simp add: and_then_def split: prod.splits option.splits)

lemma io_rehighlight [simp]: "io (rehighlight w) = io w"
  by (simp add: rehighlight_def split_beta Let_def)

lemma io_vt_upd [simp]: "io (vt_upd f g w) = io w"
  by (simp add: vt_upd_def)

lemma io_get_cscale [simp]: "io (snd (get_cscale w)) = io w"
  by (simp add: get_cscale_def split_beta Let_def split: option.splits)

lemma io_update_picture [simp]: "io (fst (update_picture f w)) = io w"
  by (simp add: update_picture_def split_beta Let_def split: option.splits)

lemma io_redraw_fork [simp]: "io (fst (redraw_fork sc cv e w)) = io w"
  by (simp add: redraw_fork_def split_beta Let_def io_and_then)

lemma io_redraw_forks [simp]: "io (fst (redraw_forks sc cv es w)) = io w"
  by (induction es arbitrary: w) (simp_all add: io_and_then)

lemma io_redraw_flags [simp]: "io (fst (redraw_flags w)) = io w"
  by (simp add: redraw_flags_def redraw_vtimelines_def split_beta Let_def io_and_then split: option.splits)

lemma io_add_bounds [simp]: "io (fst (add_bounds mc fs w)) = io w"
proof (induction fs arbitrary: w)
  case (Cons e fs)
  obtain k lo hi where e: "e = (k, lo, hi)" by (cases e)
  show ?case by (simp add: e Let_def Cons split: option.splits)
qed simp

lemma io_reads: "reads w w' \<Longrightarrow> io w' = io w"
  by (auto simp: reads_def io_def)

lemma io_redraw_strace [simp]: "io (fst (redraw_strace w)) = io w"
proof -
  have "io (fst (case strace_rows rs v of (Inl e, w) \<Rightarrow> (w, Some e)
      | (Inr strace, w) \<Rightarrow> (rehighlight (set_dom ''strace'' strace w), None))) = io v" for rs v
    using io_reads [OF reads_strace_rows [of v rs]] by (cases "strace_rows rs v") (auto split: sum.splits)
  then show ?thesis by (simp add: redraw_strace_def split_beta Let_def split: option.splits)
qed

lemma io_draw_hflag [simp]: "io (draw_hflag a n c t w) = io w"
  by (simp add: draw_hflag_def Let_def)

lemma io_do_ida [simp]: "io (do_ida_socket c w) = io w"
  by (simp add: do_ida_socket_def ws_send_def)

lemma io_set_val [simp]: "io (set_val i v w) = io w"
  by (simp add: set_val_def)

lemma get_cscale_value [simp]: "fst (get_cscale w) = cscale_of (msession w) (box_height w)"
  by (simp add: get_cscale_def cscale_of_def split_beta Let_def split: option.splits)

lemma io_parts: "emits w = fst (io w)" "box_height w = snd (io w)"
  by (simp_all add: io_def)

text \<open>Each function emits its requests for the session it is run in, and nothing else.\<close>

lemma body_requests: "io (fst (client_body f w)) = (emits w @ requests (msession w) (box_height w) f, box_height w)"
proof (cases f)
  case A_getchanges_iaddr
  then show ?thesis
    by (simp add: client_body_def requests_def autorun_getchanges_iaddr_def changes_request_def split_beta io_parts)
next
  case A_getchanges_daddr
  then show ?thesis
    by (simp add: client_body_def requests_def autorun_getchanges_daddr_def changes_request_def split_beta Let_def io_parts)
next
  case A_bounds
  then show ?thesis
    by (simp add: client_body_def requests_def autorun_bounds_def split_beta Let_def io_and_then io_parts split: option.splits)
next
  case A_select_fork
  then show ?thesis
    by (simp add: client_body_def requests_def autorun_select_fork_def split_beta Let_def io_parts split: option.splits list.splits)
next
  case A_sview
  then show ?thesis
    by (simp add: client_body_def requests_def autorun_sview_def split_beta Let_def io_parts split: option.splits)
qed (simp_all add: client_body_def requests_def body_defs minus_num_def split_beta Let_def io_parts split: option.splits)

section \<open>Processing the queue\<close>

text \<open>The selected fork is one of the known ones, if any are known.\<close>

definition fork_valid :: "(string \<Rightarrow> sval option) \<Rightarrow> bool" where
  "fork_valid s = (case forks_of (s ''max_clnum'') of None \<Rightarrow> True
     | Some fs \<Rightarrow> map_of fs (prop_key (s ''forknum'')) \<noteq> None)"

text \<open>Then the functions leave the session as it is, but for the window of the system calls.\<close>

lemma body_session:
  assumes "fork_valid (msession w)" and "k \<noteq> ''sview''"
  shows "msession (fst (client_body f w)) k = msession w k"
proof -
  consider "f = A_select_fork" | "f = A_sview" | "f \<noteq> A_select_fork" "f \<noteq> A_sview" by blast
  then show ?thesis
  proof cases
    case 1
    with assms(1) show ?thesis
      by (auto simp: client_body_def autorun_select_fork_def fork_valid_def split_beta Let_def split: option.splits)
  next
    case 2
    with assms(2) show ?thesis
      by (simp add: client_body_def autorun_sview_def split_beta Let_def split: option.splits)
  next
    case 3
    then show ?thesis using engineD(3) [OF engine_body] by metis
  qed
qed

lemma requests_cong:
  assumes "\<And>k. k \<noteq> ''sview'' \<Longrightarrow> s k = s' k"
  shows "requests s h f = requests s' h f" and "fork_valid s = fork_valid s'"
proof -
  have e: "s ''iaddr'' = s' ''iaddr''" "s ''daddr'' = s' ''daddr''" "s ''dview'' = s' ''dview''" "s ''iview'' = s' ''iview''"
    "s ''cview'' = s' ''cview''" "s ''clnum'' = s' ''clnum''" "s ''forknum'' = s' ''forknum''" "s ''flat'' = s' ''flat''"
    "s ''max_clnum'' = s' ''max_clnum''"
    by (simp_all add: assms)
  show "requests s h f = requests s' h f" unfolding requests_def changes_request_def cscale_of_def e ..
  show "fork_valid s = fork_valid s'" unfolding fork_valid_def e ..
qed

lemma run_pending_requests:
  assumes "fork_valid (msession w)" and "run_pending client_body fs w = (w', None)"
  shows "emits w' = emits w @ concat (map (requests (msession w) (box_height w)) fs)
    \<and> (\<forall>k. k \<noteq> ''sview'' \<longrightarrow> msession w' k = msession w k)"
  using assms
proof (induction fs arbitrary: w)
  case (Cons f fs)
  obtain v r where b: "client_body f w = (v, r)" by fastforce
  then have r: "r = None" using Cons.prems(2) by (cases r) simp_all
  have s: "\<And>k. k \<noteq> ''sview'' \<Longrightarrow> msession v k = msession w k" using body_session [OF Cons.prems(1)] b by (metis fst_conv)
  have io: "emits v = emits w @ requests (msession w) (box_height w) f" "box_height v = box_height w"
    using body_requests [of f w] b by (simp_all add: io_def)
  have "fork_valid (msession v)" using requests_cong(2) [of "msession v" "msession w"] s Cons.prems(1) by simp
  moreover have "run_pending client_body fs v = (w', None)" using Cons.prems(2) b r by simp
  moreover have "requests (msession v) h g = requests (msession w) h g" for h g using s by (rule requests_cong(1))
  then have "requests (msession v) (box_height v) = requests (msession w) (box_height w)" using io(2) by auto
  ultimately show ?case using Cons.IH [of v] s io(1) by (simp del: map_eq_conv)
qed simp

lemma timer_requests:
  assumes "fork_valid (msession w)" and "snd (fire_timer client_body t w) = None"
  shows "emits (fst (fire_timer client_body t w)) = emits w @ concat (map (requests (msession w) (box_height w)) (mpend w))
    \<and> (\<forall>k. k \<noteq> ''sview'' \<longrightarrow> msession (fst (fire_timer client_body t w)) k = msession w k)"
proof -
  let ?v = "w\<lparr>timers := removeAll t (timers w), mpend := []\<rparr>"
  have f: "fire_timer client_body t w = run_pending client_body (mpend w) ?v"
    by (simp add: fire_timer_def session_process_def)
  with assms(2) obtain w' where w': "run_pending client_body (mpend w) ?v = (w', None)"
    by (metis prod.collapse)
  show ?thesis using run_pending_requests [OF _ w'] assms(1) unfolding f w' by simp
qed

section \<open>No request is missed\<close>

text \<open>The keys the requests of a function depend on.\<close>

definition request_keys :: "arun \<Rightarrow> string list" where
  "request_keys f = (case f of
      A_navigateiaddr \<Rightarrow> [''iaddr'']
    | A_getinstructions \<Rightarrow> [''forknum'', ''clnum'']
    | A_getmemory \<Rightarrow> [''forknum'', ''dview'', ''clnum'']
    | A_getregisters \<Rightarrow> [''forknum'', ''clnum'']
    | A_datachanges \<Rightarrow> [''forknum'', ''clnum'']
    | A_getchanges_iaddr \<Rightarrow> [''cview'', ''iaddr'', ''clnum'']
    | A_getchanges_daddr \<Rightarrow> [''cview'', ''daddr'', ''clnum'']
    | A_static \<Rightarrow> [''iview'', ''flat'']
    | _ \<Rightarrow> [])"

lemma requests_keys: "\<forall>k \<in> set (request_keys f). s k = s' k \<Longrightarrow> requests s h f = requests s' h f"
  by (cases f) (simp_all add: request_keys_def requests_def changes_request_def cscale_of_def)

text \<open>A function that sends requests tracks all of these keys when it is registered.\<close>

lemma body_tracks:
  assumes "mtrack w = Some []" and "request_keys f \<noteq> []"
  shows "\<exists>ks. mtrack (fst (client_body f w)) = Some ks \<and> set (request_keys f) \<subseteq> set ks \<and> snd (client_body f w) = None"
  using assms
  by (cases f) (simp_all add: request_keys_def client_body_def body_defs get_cscale_def session_get_tracks emit_def
      set_dom_def Let_def split: option.splits prod.splits)

lemma registered_keys:
  assumes "k \<in> set (request_keys f)"
  shows "f \<in> set (mdeps (fst (deps_autorun client_body f w)) k)"
proof -
  let ?w = "w\<lparr>mtrack := Some []\<rparr>"
  have "request_keys f \<noteq> []" using assms by auto
  with body_tracks [of ?w f] obtain ks where ks: "mtrack (fst (client_body f ?w)) = Some ks"
    "set (request_keys f) \<subseteq> set ks" "snd (client_body f ?w) = None" by auto
  obtain w' where b: "client_body f ?w = (w', None)" using ks(3) by (metis prod.collapse)
  have "mdeps w' = mdeps w" using mdeps_body [of f ?w] b by simp
  from deps_of_body [OF b _ this, of ks k] ks b assms have
    "mdeps (fst (deps_autorun client_body f w)) k = mdeps w k @ replicate (count_list ks k) f" by simp
  moreover have "0 < count_list ks k" using ks(2) assms by (auto simp: count_list_pos)
  ultimately show ?thesis by simp
qed

text \<open>Whatever happens after a function was registered: setting a key to a value that changes its
  requests queues it and arms the timer.\<close>

lemma change_queues:
  assumes "live w" and "loads_ok (E_autorun f # es) w" and "w' = run_events (E_autorun f # es) w"
    and "requests ((msession w')(k := v)) h f \<noteq> requests (msession w') h f"
  shows "f \<in> set (mpend (session_set k v w')) \<and> (\<exists>t. timers (session_set k v w') = [t])"
proof -
  let ?w = "fst (deps_autorun client_body f w)"
  have "k \<in> set (request_keys f)"
  proof (rule ccontr)
    assume "k \<notin> set (request_keys f)"
    then have "\<forall>j \<in> set (request_keys f). ((msession w')(k := v)) j = msession w' j" by auto
    with assms(4) requests_keys show False by blast
  qed
  then have d: "f \<in> set (mdeps ?w k)" by (rule registered_keys)
  have "live ?w" using handle_live [OF assms(1), of "E_autorun f"] assms(2) by simp
  then have l: "live w'" and m: "set (mdeps ?w k) \<subseteq> set (mdeps w' k)"
    using run_events_deps [of ?w es] assms(2,3) by auto
  have "f \<in> set (mpend (session_set k v w'))" using d m by (auto simp: session_set_queue)
  moreover have "live (session_set k v w')" using elive_set [of "\<lambda>_. True" "{}" w'] l by (simp add: elive_iff)
  ultimately show ?thesis by (auto simp: live_def minv_def)
qed

text \<open>When that timer fires, the new requests are sent.\<close>

lemma queued_requests:
  assumes "f \<in> set (mpend u)" and "fork_valid (msession u)" and "snd (fire_timer client_body t u) = None"
  shows "\<exists>before after. emits (fst (fire_timer client_body t u)) = emits u @ before @ requests (msession u) (box_height u) f @ after"
proof -
  obtain xs ys where "mpend u = xs @ f # ys" using assms(1) by (meson split_list)
  then show ?thesis using timer_requests [OF assms(2,3)] by auto
qed

end
