(* ===== verification/Flag_State.thy ===== *)
theory Flag_State
  imports Events Requests
begin

text \<open>
  The table of flags over a whole session: which events touch it, and that in every reachable state
  it is well formed and marks at most one point as the current change.
\<close>

section \<open>Handlers that leave the flags alone\<close>

lemma flags_reads: "reads w w' \<Longrightarrow> flags w' = flags w"
  by (auto simp: reads_def)

lemma flags_session [simp]: "flags (snd (session_gets ks w)) = flags w" "flags (session_setDefault k v w) = flags w"
  "flags (set_dom i h w) = flags w" "flags (emit n a w) = flags w"
proof -
  show "flags (snd (session_gets ks w)) = flags w" by (induction ks arbitrary: w) (simp_all add: split_beta)
  show "flags (session_setDefault k v w) = flags w" by (simp add: session_setDefault_def split_beta)
qed (simp_all add: set_dom_def emit_def)

lemma flags_and_then: "(\<And>w. flags (fst (g w)) = flags w) \<Longrightarrow> flags (fst (and_then r g)) = flags (fst r)"
  by (simp add: and_then_def split: prod.splits option.splits)

lemma flags_push_history [simp]: "flags (push_history r w) = flags w"
  by (simp add: push_history_def split_beta pushState_def replaceState_def Let_def)

lemma flags_base [simp]:
  "flags (fst (update_dview a w)) = flags w" "flags (update_iaddr a d w) = flags w"
  "flags (snd (abs_maxclnum w)) = flags w" "flags (zoom_out_max f w) = flags w"
  "flags (update_maxclnum m w) = flags w" "flags (onpopstate st w) = flags w"
proof -
  show "flags (fst (update_dview a w)) = flags w" "flags (update_iaddr a d w) = flags w"
    by (simp_all add: update_dview_def update_iaddr_def Let_def split: option.splits)
  have a: "flags (snd (abs_maxclnum v)) = flags v" for v by (simp add: abs_maxclnum_def split_beta)
  have z: "flags (zoom_out_max f v) = flags v" for f v
    by (simp add: zoom_out_max_def split_beta Let_def a split: option.splits)
  show "flags (snd (abs_maxclnum w)) = flags w" "flags (zoom_out_max f w) = flags w" by (rule a, rule z)
  show "flags (update_maxclnum m w) = flags w"
    by (simp add: update_maxclnum_def split_beta Let_def z split: option.splits)
  have "flags (fold (\<lambda>(k, x) w. if loose_neq (msession w k) x then session_set k x w else w) kvs v) = flags v"
    for kvs :: hstate and v :: world by (induction kvs arbitrary: v) auto
  then show "flags (onpopstate st w) = flags w" by (simp add: onpopstate_def split: option.splits)
qed

lemma flags_page [simp]:
  "flags (rehighlight w) = flags w" "flags (replace_names w) = flags w" "flags (on_names m w) = flags w"
  "flags (draw_hflag a n c ot w) = flags w" "flags (do_ida_socket c w) = flags w" "flags (set_val i v w) = flags w"
  "flags (redraw_reg_flags w) = flags w" "flags (snd (get_clnum t y w)) = flags w"
proof -
  show "flags (rehighlight w) = flags w" by (simp add: rehighlight_def split_beta Let_def)
  show "flags (replace_names w) = flags w" by (simp add: replace_names_def Let_def)
  show "flags (on_names m w) = flags w" by (induction m arbitrary: w) (auto simp: on_names_def)
  have "flags (fold reg_flag rs v) = flags v" for rs v
    by (induction rs arbitrary: v) (simp_all add: reg_flag_def Let_def split: option.splits)
  then show "flags (redraw_reg_flags w) = flags w" by (simp add: redraw_reg_flags_def Let_def split: option.splits)
  show "flags (snd (get_clnum t y w)) = flags w" by (simp add: get_clnum_def split_beta Let_def split: option.splits)
qed (simp_all add: draw_hflag_def do_ida_socket_def ws_send_def set_val_def Let_def)

lemma flags_redraw_strace [simp]: "flags (fst (redraw_strace w)) = flags w"
proof -
  have "flags (fst (case strace_rows rs v of (Inl e, w) \<Rightarrow> (w, Some e)
      | (Inr strace, w) \<Rightarrow> (rehighlight (set_dom ''strace'' strace w), None))) = flags v" for rs v
    using flags_reads [OF reads_strace_rows [of v rs]] by (cases "strace_rows rs v") (auto split: sum.splits)
  then show ?thesis by (simp add: redraw_strace_def split_beta Let_def split: option.splits)
qed

text \<open>Only two of the registered functions change flags.\<close>

lemma flags_body: "f \<noteq> A_bounds \<Longrightarrow> f \<noteq> A_change \<Longrightarrow> flags (fst (client_body f w)) = flags w"
  by (cases f) (simp_all add: client_body_def body_defs autorun_select_fork_def autorun_sview_def
      split_beta Let_def split: option.splits list.splits)

lemma flags_regs_loop: "flags (snd (regs_loop fin rs w)) = flags w"
proof (induction rs arbitrary: fin w)
  case (Cons r rs)
  define w1 where "w1 = draw_hflag (r_value (rename_reg r)) (r_name (rename_reg r)) (reg_color (r_num (rename_reg r))) False
    (w\<lparr>current_regs := Some (fin @ rename_reg r # rs)\<rparr>)"
  have 1: "flags w1 = flags w" by (simp add: w1_def)
  obtain x w2 where g: "get_data_type (VStr (r_value (rename_reg r))) False w1 = (x, w2)" by fastforce
  then have 2: "flags w2 = flags w1" using flags_reads [OF reads_get_data_type] by (metis snd_conv)
  obtain y w3 where l: "regs_loop (fin @ [rename_reg r]) rs w2 = (y, w3)" by fastforce
  then have 3: "flags w3 = flags w2" by (metis Cons snd_conv)
  have "snd (regs_loop fin (r # rs) w) = (case x of Inl e \<Rightarrow> w2 | Inr cl \<Rightarrow> w3)"
    using g l by (cases x; cases y) (simp_all add: Let_def flip: w1_def)
  with 1 2 3 show ?case by (cases x) simp_all
qed simp

lemma flags_instructions_loop: "flags (snd (instructions_loop c is w)) = flags w"
proof (induction "is" arbitrary: w)
  case (Cons i "is")
  define w1 where "w1 = (if c = Some (VNum (di_clnum i)) \<and> di_clnum i \<noteq> NaN
               then session_set ''iview'' (Some (VStr (di_address i))) (session_set ''iaddr'' (Some (VStr (di_address i))) w)
               else w)"
  have 1: "flags w1 = flags w" by (simp add: w1_def)
  obtain x w2 where h: "highlight_instruction (di_instruction i) True w1 = (x, w2)" by fastforce
  then have 2: "flags w2 = flags w1" using flags_reads [OF reads_highlight] by (metis snd_conv)
  obtain y w3 where l: "instructions_loop c is w2 = (y, w3)" by fastforce
  then have 3: "flags w3 = flags w2" using Cons.IH [of w2] by simp
  have "snd (instructions_loop c (i # is) w) = (case x of Inl e \<Rightarrow> w2 | Inr d \<Rightarrow> w3)"
    using h l by (cases x; cases y) (simp_all add: Let_def flip: w1_def)
  with 1 2 3 show ?case by (cases x) simp_all
qed simp

lemma flags_memory [simp]: "flags (fst (on_memory msg w)) = flags w"
proof -
  obtain v w1 where g: "session_get ''daddr'' False w = (v, w1)" by fastforce
  then have 1: "flags w1 = flags w" by (rule session_get_flags)
  show ?thesis
  proof (cases "memory_loop msg 0 w1")
    case None
    with g 1 show ?thesis by (simp add: on_memory_def)
  next
    case (Some p)
    obtain r w2 where p: "p = (r, w2)" by (cases p)
    then have "flags w2 = flags w" using flags_reads [OF reads_memory_loop [OF Some]] 1 by simp
    with g Some p show ?thesis by (cases r) (auto simp: on_memory_def Let_def split: prod.splits)
  qed
qed

lemma flags_messages [simp]:
  "flags (fst (on_registers rs w)) = flags w" "flags (fst (on_clnum dcs w)) = flags w"
  "flags (fst (on_instructions is w)) = flags w" "flags (fst (on_flat fl w)) = flags w"
  "flags (snd (fst (on_function sv dims bbs gv w))) = flags w" "flags (fst (on_strace f d w)) = flags w"
  "flags (fst (ws_onmessage s w)) = flags w"
proof -
  have r: "regs_loop [] rs v = (x, v') \<Longrightarrow> flags v' = flags v" for v v' x using flags_regs_loop [of "[]" rs v] by simp
  show "flags (fst (on_registers rs w)) = flags w"
    by (cases "regs_loop [] rs (redraw_reg_flags (w\<lparr>current_regs := Some rs\<rparr>))")
       (auto simp: on_registers_def Let_def split: sum.splits dest!: r)
  show "flags (fst (on_clnum dcs w)) = flags w"
    using flags_reads [OF reads_changes_html [of w dcs]] by (cases "changes_html dcs w") (auto simp: on_clnum_def split: sum.splits)
  show "flags (fst (on_strace f d w)) = flags w" by (simp add: on_strace_def)
  show "flags (fst (on_flat fl w)) = flags w"
    using flags_reads [OF reads_instructions_html [of w fl]]
    by (cases "instructions_html fl w") (auto simp: on_flat_def display_flat_def and_then_def split: sum.splits)
  show "flags (snd (fst (on_function sv dims bbs gv w))) = flags w"
    using flags_reads [OF reads_build_graph [of w bbs new_graph]]
    by (cases "build_graph bbs new_graph w") (auto simp: on_function_def split: sum.splits prod.splits option.splits)
  show "flags (fst (on_instructions is w)) = flags w"
  proof -
    obtain v w1 where g: "session_get ''clnum'' False w = (v, w1)" by fastforce
    then have "flags w1 = flags w" by (rule session_get_flags)
    moreover obtain x w2 where l: "instructions_loop v is w1 = (x, w2)" by fastforce
    moreover have "flags w2 = flags w1" using flags_instructions_loop [of v "is" w1] l by simp
    ultimately show ?thesis using g by (cases x) (simp_all add: on_instructions_def)
  qed
  show "flags (fst (ws_onmessage s w)) = flags w"
  proof -
    have t: "get_data_type v f u = (x, u') \<Longrightarrow> flags u' = flags u" for v f u x u'
      using flags_reads [OF reads_get_data_type [of u v f]] by simp
    show ?thesis by (auto simp: ws_onmessage_def Let_def split: prod.splits sum.splits option.splits dest!: t)
  qed
qed

lemma flags_user [simp]:
  "flags (history_back w) = flags w" "flags (fire_history_timer w) = flags w" "flags (go_to_flag n d w) = flags w"
  "flags (move_clnum k w) = flags w" "flags (fst (key_forks l w)) = flags w" "flags (key_make s w) = flags w"
  "flags (key_function b w) = flags w" "flags (fst (key_args tags ask w)) = flags w"
  "flags (fst (key_tag tags ask sh tn w)) = flags w" "flags (key_goto ask w) = flags w"
  by (simp_all add: history_back_def fire_history_timer_def go_to_flag_def move_clnum_def key_forks_def
      key_make_def key_function_def key_args_def key_tag_def key_goto_def split_beta Let_def
      split: list.splits nat.splits option.splits)

lemma flags_mouse [simp]:
  "flags (vtimelinebox_mousewheel d w) = flags w" "flags (vtimelinebox_mousedown t b y w) = flags w"
  "flags (vtimelinebox_mouseup t b y w) = flags w" "flags (fst (strace_mousewheel d w)) = flags w"
  "flags (fst (hexdump_mousewheel d w)) = flags w" "flags (idump_mousewheel d w) = flags w"
  "flags (fst (flat_mousewheel cdr d w)) = flags w" "flags (fst (haddrline_click tt x w)) = flags w"
  "flags (haddrline_contextmenu tt x w) = flags w"
  by (simp_all add: vtimelinebox_mousewheel_def vtimelinebox_mousedown_def vtimelinebox_mouseup_def
      strace_mousewheel_def hexdump_mousewheel_def idump_mousewheel_def
      flat_mousewheel_def haddrline_click_def haddrline_contextmenu_def split_beta Let_def split: option.splits)

section \<open>The invariant\<close>

definition flags_ok :: "(string \<times> string list) list \<Rightarrow> bool" where
  "flags_ok fl \<longleftrightarrow> finv fl
     \<and> (\<exists>p. \<forall>k. count_list (types_at fl k) ''change'' = (if p = Some k then 1 else 0))"

text \<open>A step that keeps the table well formed and every flag of the current change.\<close>

definition keeps_change :: "(string \<times> string list) list \<Rightarrow> (string \<times> string list) list \<Rightarrow> bool" where
  "keeps_change fl fl' \<longleftrightarrow> finv fl' \<and> (\<forall>k. count_list (types_at fl' k) ''change'' = count_list (types_at fl k) ''change'')"

lemma keeps_change_ok: "keeps_change fl fl' \<Longrightarrow> flags_ok fl \<Longrightarrow> flags_ok fl'"
  by (simp add: keeps_change_def flags_ok_def)

lemma keeps_change_trans: "keeps_change a b \<Longrightarrow> keeps_change b c \<Longrightarrow> keeps_change a c"
  by (simp add: keeps_change_def)

lemma keeps_change_redraw: "finv (flags w) \<Longrightarrow> keeps_change (flags w) (flags (fst (redraw_flags w)))"
  using redraw_flags_keeps [of w] by (simp add: keeps_def keeps_change_def)

lemma keeps_change_bounds: "finv fl \<Longrightarrow> keeps_change fl (add_flag ''bounds'' f c fl)"
  by (simp add: keeps_change_def add_flag_finv types_at_add_flag)

lemma keeps_change_add_bounds: "finv (flags w) \<Longrightarrow> keeps_change (flags w) (flags (fst (add_bounds mc fs w)))"
proof (induction fs arbitrary: w)
  case (Cons e fs)
  obtain k lo hi where e: "e = (k, lo, hi)" by (cases e)
  let ?n = "num_to_string 10 (fdec k)"
  show ?case
  proof (cases "map_of mc ?n")
    case None
    with Cons.prems show ?thesis by (simp add: e Let_def keeps_change_def)
  next
    case (Some b)
    obtain l h where b: "b = (l, h)" by (cases b)
    let ?fl = "add_flag ''bounds'' ?n (num_to_string 10 h) (add_flag ''bounds'' ?n (num_to_string 10 l) (flags w))"
    have "keeps_change (flags w) ?fl"
      using keeps_change_bounds [OF Cons.prems] keeps_change_bounds [OF add_flag_finv [OF Cons.prems]]
      by (blast intro: keeps_change_trans)
    moreover from this have "keeps_change ?fl (flags (fst (add_bounds mc fs (w\<lparr>flags := ?fl\<rparr>))))"
      using Cons.IH [of "w\<lparr>flags := ?fl\<rparr>"] by (simp add: keeps_change_def)
    ultimately show ?thesis using Some b by (simp add: e Let_def) (blast intro: keeps_change_trans)
  qed
qed (simp add: keeps_change_def)

lemma keeps_change_autorun_bounds: "finv (flags w) \<Longrightarrow> keeps_change (flags w) (flags (fst (autorun_bounds w)))"
proof -
  assume f: "finv (flags w)"
  obtain mc v where g: "session_get ''max_clnum'' False w = (mc, v)" by fastforce
  then have v: "flags v = flags w" by (rule session_get_flags)
  show ?thesis
  proof (cases "forks_of mc")
    case None
    with f g v show ?thesis by (simp add: autorun_bounds_def keeps_change_def)
  next
    case (Some fs)
    let ?w = "v\<lparr>flags := remove_flags ''bounds'' None (flags v)\<rparr>"
    have "keeps_change (flags w) (flags ?w)"
      using f ft.count_replace [of "flags w" "''bounds''" "[]"] by (simp add: keeps_change_def remove_flags_finv v)
    moreover from this have "keeps_change (flags ?w) (flags (fst (add_bounds fs fs ?w)))"
      by (intro keeps_change_add_bounds) (simp add: keeps_change_def)
    ultimately have 1: "keeps_change (flags w) (flags (fst (add_bounds fs fs ?w)))" by (rule keeps_change_trans)
    obtain u r where u: "add_bounds fs fs ?w = (u, r)" by fastforce
    have "keeps_change (flags u) (flags (fst (redraw_flags u)))"
      using 1 u by (intro keeps_change_redraw) (simp add: keeps_change_def)
    with 1 u show ?thesis using Some g
      by (cases r) (auto simp: autorun_bounds_def intro: keeps_change_trans)
  qed
qed

lemma flags_ok_body:
  assumes "flags_ok (flags w)"
  shows "flags_ok (flags (fst (client_body f w)))"
proof -
  have fin: "finv (flags w)" using assms by (simp add: flags_ok_def)
  consider "f = A_bounds" | "f = A_change" | "f \<noteq> A_bounds" "f \<noteq> A_change" by blast
  then show ?thesis
  proof cases
    case 1
    then show ?thesis using keeps_change_ok [OF keeps_change_autorun_bounds [OF fin] assms] by (simp add: client_body_def)
  next
    case 2
    let ?k = "flag_key (elem_key (msession w ''forknum'')) (elem_key (msession w ''clnum''))"
    have c: "finv (flags (fst (autorun_change w)))"
      "count_list (types_at (flags (fst (autorun_change w))) q) ''change'' = (if q = ?k then 1 else 0)" for q
      using autorun_change_flags [OF fin refl, of "''change''" q] by simp_all
    have "\<exists>p. \<forall>q. count_list (types_at (flags (fst (autorun_change w))) q) ''change'' = (if p = Some q then 1 else 0)"
      by (rule exI [of _ "Some ?k"]) (auto simp: c(2))
    with 2 c(1) show ?thesis by (simp add: client_body_def flags_ok_def)
  next
    case 3
    then show ?thesis using assms by (simp add: flags_body)
  qed
qed

lemma flags_ok_run_pending: "flags_ok (flags w) \<Longrightarrow> flags_ok (flags (fst (run_pending client_body fs w)))"
proof (induction fs arbitrary: w)
  case (Cons f fs)
  obtain w' r where b: "client_body f w = (w', r)" by fastforce
  then have "flags_ok (flags w')" using flags_ok_body [OF Cons.prems, of f] by simp
  with Cons.IH b show ?case by (cases r) simp_all
qed simp

lemma flags_ok_deps_autorun: "flags_ok (flags w) \<Longrightarrow> flags_ok (flags (fst (deps_autorun client_body f w)))"
  using flags_ok_body [of "w\<lparr>mtrack := Some []\<rparr>" f]
  by (auto simp: deps_autorun_def Let_def split: prod.splits option.splits)

lemma flags_ok_redraw: "flags_ok (flags w) \<Longrightarrow> flags_ok (flags (fst (redraw_flags w)))"
  using keeps_change_redraw [of w] by (rule keeps_change_ok) (simp_all add: flags_ok_def)

lemma flags_ok_changes: "flags_ok (flags w) \<Longrightarrow> flags_ok (flags (fst (on_changes t m w)))"
proof -
  assume ok: "flags_ok (flags w)"
  have "change_type t \<noteq> ''change''" by (simp add: change_type_def change_types_def)
  then have "keeps_change (flags w) (flags (fst (on_changes t m w)))"
    using on_changes_flags [of w t m "''change''"] ok by (auto simp: keeps_change_def flags_ok_def)
  then show ?thesis using ok by (rule keeps_change_ok)
qed

lemma flags_ok_delete_all_forks: "flags_ok (flags w) \<Longrightarrow> flags_ok (flags (fst (delete_all_forks w)))"
proof -
  have "flags (fold (\<lambda>(k, _). emit ''deletefork'' [Some (VNum (fdec k))]) fs v) = flags v" for fs :: forks and v :: world
    by (induction fs arbitrary: v) auto
  then show "flags_ok (flags w) \<Longrightarrow> ?thesis"
    by (auto simp: delete_all_forks_def split_beta Let_def intro!: flags_ok_redraw)
qed

lemma flags_ok_keydown: "flags_ok (flags w) \<Longrightarrow> flags_ok (flags (fst (onkeydown tags ask e w)))"
  using flags_ok_delete_all_forks [of w] by (simp add: onkeydown_def Let_def split_beta)

lemma flags_ok_handle:
  assumes "flags_ok (flags w)"
  shows "flags_ok (flags (fst (handle e w)))"
proof (cases "\<exists>t f m tags ask k c. e \<in> {E_timer t, E_autorun f, E_changes c m, E_key tags ask k, E_contextmenu c, E_resize}")
  case True
  have "flags_ok (flags (fst (vtimelinebox_contextmenu c w)))" for c
    using assms flags_ok_redraw [of "emit ''deletefork'' [Some (VNum (get_forknum c))] w"]
    by (simp add: vtimelinebox_contextmenu_def Let_def)
  moreover have "flags_ok (flags (fst (fire_timer client_body t w)))" for t
    using assms flags_ok_run_pending [of "w\<lparr>timers := removeAll t (timers w), mpend := []\<rparr>"]
    by (simp add: fire_timer_def session_process_def)
  ultimately show ?thesis
    using True assms flags_ok_deps_autorun flags_ok_changes flags_ok_keydown flags_ok_redraw by auto
next
  case False
  then have "flags (fst (handle e w)) = flags w"
    by (cases e) (simp_all add: small_handlers Let_def split_beta split: option.splits)
  then show ?thesis using assms by simp
qed

lemma reachable_flags_ok: "reachable w \<Longrightarrow> flags_ok (flags w)"
proof (induction rule: reachable.induct)
  case start
  show ?case by (simp add: flags_ok_def finv_def types_at_def)
qed (rule flags_ok_handle)

end
