(* ===== verification/UI.thy ===== *)
theory UI
  imports Prelude
begin

text \<open>
  \<open>web/client/ui.js\<close>: the panels of the page and the loading of the scripts. The docking library
  creates each added panel at some time after \<open>addPanel\<close>, by calling the \<open>onCreate\<close> of its type;
  \<open>$.when(...).done(f)\<close> calls \<open>f\<close> once, when all of its deferred objects are resolved. The templates
  are those of \<open>web/index.html\<close>, by the ids of the elements in them.
\<close>

section \<open>State\<close>

datatype panel = P_Timeline | P_Dynamic | P_Strace | P_Memory | P_Flat | P_Control_Flow

datatype side = Dock_Left | Dock_Right | Dock_Bottom

text \<open>The settings of a panel the handler makes.\<close>

datatype setting = Max_Size nat nat | Title bool | Moveable bool | Closeable bool | Scrollable bool bool

record ui =
  templates :: "(string \<times> string list) list"
  elements :: "string list"
  added :: "(panel \<times> side \<times> panel option \<times> nat option) list"
  settings :: "(panel \<times> setting) list"   \<comment> \<open>in the order they are made\<close>
  created :: "panel list"
  resolved :: "panel list"          \<comment> \<open>the deferred objects, one per type of panel\<close>
  waiting :: bool                   \<comment> \<open>the callback of \<open>$.when\<close> is registered and has not run\<close>
  loads :: "string list list"       \<comment> \<open>the calls of \<open>head.load\<close>\<close>
  ui_pc :: nat                      \<comment> \<open>how far the ready handler has got\<close>

definition scripts :: "string list" where
  "scripts = [''/client/controls.js'', ''/client/ida.js'', ''/client/idump.js'', ''/client/regmem.js'',
     ''/client/vtimeline.js'', ''/client/strace.js'', ''/client/haddrline.js'',
     ''/client/static/static.js'', ''/client/static/graph.js'']"

definition page :: ui where
  "page = \<lparr>templates =
       [(''dynamic-template'', [''haddrline'', ''controls'', ''control_clnum'', ''control_forknum'', ''control_iaddr'',
            ''control_daddr'', ''idump'', ''regviewer'', ''datachanges'']),
        (''strace-template'', [''strace'']), (''hexeditor-template'', [''hexeditor'', ''hexdump''])],
     elements = [], added = [], settings = [], created = [], resolved = [], waiting = False, loads = [], ui_pc = 0\<rparr>"

section \<open>Creating panels\<close>

text \<open>The deferred objects that \<open>$.when\<close> waits for; those of the two static panels are left out.\<close>

definition awaited :: "panel list" where
  "awaited = [P_Timeline, P_Dynamic, P_Memory, P_Strace]"

definition when_check :: "ui \<Rightarrow> ui" where
  "when_check u = (if waiting u \<and> set awaited \<subseteq> set (resolved u)
     then u\<lparr>waiting := False, loads := loads u @ [scripts]\<rparr> else u)"

definition resolve :: "panel \<Rightarrow> ui \<Rightarrow> ui" where
  "resolve p u = (if p \<in> set (resolved u) then u else when_check (u\<lparr>resolved := resolved u @ [p]\<rparr>))"

text \<open>\<open>$("#...").remove().text()\<close>: the template is used up.\<close>

definition from_template :: "string \<Rightarrow> ui \<Rightarrow> ui" where
  "from_template i u = (case map_of (templates u) i of
       None \<Rightarrow> u
     | Some els \<Rightarrow> u\<lparr>elements := elements u @ els, templates := filter (\<lambda>(k, _). k \<noteq> i) (templates u)\<rparr>)"

fun add_items :: "panel \<Rightarrow> ui \<Rightarrow> ui" where
  "add_items P_Timeline u = u\<lparr>elements := elements u @ [''vtimelinebox'']\<rparr>"
| "add_items P_Dynamic u = from_template ''dynamic-template'' u"
| "add_items P_Strace u = from_template ''strace-template'' u"
| "add_items P_Memory u = from_template ''hexeditor-template'' u"
| "add_items P_Flat u = u\<lparr>elements := elements u @ [''flat-static'']\<rparr>"
| "add_items P_Control_Flow u = u\<lparr>elements := elements u @ [''cfg-static'']\<rparr>"

definition on_create :: "panel \<Rightarrow> ui \<Rightarrow> ui" where
  "on_create p u = resolve p (add_items p u)"

section \<open>The ready handler\<close>

text \<open>The four calls of \<open>addPanel\<close>, in order: type, side, the panel to dock at, height.\<close>

definition panel_layout :: "(panel \<times> side \<times> panel option \<times> nat option) list" where
  "panel_layout = [(P_Timeline, Dock_Left, None, None), (P_Dynamic, Dock_Right, Some P_Timeline, None),
     (P_Memory, Dock_Bottom, Some P_Dynamic, Some 400), (P_Strace, Dock_Bottom, Some P_Dynamic, Some 200)]"

text \<open>The defaults are applied to all panels there are (\<open>findPanels\<close> without a type).\<close>

definition panel_defaults :: "setting list" where
  "panel_defaults = [Title False, Moveable False, Closeable False, Scrollable False False]"

definition apply_defaults :: "ui \<Rightarrow> ui" where
  "apply_defaults u = u\<lparr>settings := settings u @ concat (map (\<lambda>(x, _). map (Pair x) panel_defaults) (added u))\<rparr>"

definition add_panel :: "panel \<times> side \<times> panel option \<times> nat option \<Rightarrow> ui \<Rightarrow> ui" where
  "add_panel e u =
     (let u = u\<lparr>added := added u @ [e]\<rparr>
      in if fst e = P_Timeline then u\<lparr>settings := settings u @ [(P_Timeline, Max_Size 100 0)]\<rparr> else u)"

definition when_done :: "ui \<Rightarrow> ui" where
  "when_done u = when_check (u\<lparr>waiting := True\<rparr>)"

definition ready_step :: "ui \<Rightarrow> ui" where
  "ready_step u =
     (let u' = u\<lparr>ui_pc := Suc (ui_pc u)\<rparr> in
      if ui_pc u < length panel_layout then add_panel (panel_layout ! ui_pc u) u' else when_done (apply_defaults u'))"

text \<open>
  The handler advances, or the library creates a panel that was added, once; this may happen inside
  of \<open>addPanel\<close> or at any later time.
\<close>

inductive ui_reachable :: "ui \<Rightarrow> bool" where
  ui_start: "ui_reachable page"
| ui_ready: "ui_reachable u \<Longrightarrow> ui_pc u \<le> length panel_layout \<Longrightarrow> ui_reachable (ready_step u)"
| ui_create: "ui_reachable u \<Longrightarrow> p \<in> fst ` set (added u) \<Longrightarrow> p \<notin> set (created u) \<Longrightarrow>
    ui_reachable (on_create p (u\<lparr>created := created u @ [p]\<rparr>))"

section \<open>The scripts find their elements\<close>

text \<open>The elements whose first match the scripts use without a check when they start.\<close>

definition script_needs :: "(string \<times> string) list" where
  "script_needs = [(''/client/controls.js'', ''idump''), (''/client/regmem.js'', ''hexdump''),
     (''/client/vtimeline.js'', ''vtimelinebox''), (''/client/strace.js'', ''strace''),
     (''/client/haddrline.js'', ''haddrline'')]"

fun items_of :: "panel \<Rightarrow> string list" where
  "items_of P_Timeline = [''vtimelinebox'']"
| "items_of P_Dynamic = [''haddrline'', ''controls'', ''control_clnum'', ''control_forknum'', ''control_iaddr'',
     ''control_daddr'', ''idump'', ''regviewer'', ''datachanges'']"
| "items_of P_Strace = [''strace'']"
| "items_of P_Memory = [''hexeditor'', ''hexdump'']"
| "items_of P_Flat = [''flat-static'']"
| "items_of P_Control_Flow = [''cfg-static'']"

fun template_of :: "panel \<Rightarrow> string option" where
  "template_of P_Dynamic = Some ''dynamic-template''"
| "template_of P_Strace = Some ''strace-template''"
| "template_of P_Memory = Some ''hexeditor-template''"
| "template_of _ = None"

definition uinv :: "ui \<Rightarrow> bool" where
  "uinv u \<longleftrightarrow> fst ` set (added u) \<subseteq> set awaited \<and> resolved u = created u
     \<and> (\<forall>p \<in> set (created u). set (items_of p) \<subseteq> set (elements u))
     \<and> (\<forall>p i. template_of p = Some i \<and> p \<notin> set (created u) \<longrightarrow> map_of (templates u) i = Some (items_of p))
     \<and> waiting u = (length panel_layout < ui_pc u \<and> \<not> set awaited \<subseteq> set (created u))
     \<and> loads u = (if length panel_layout < ui_pc u \<and> set awaited \<subseteq> set (created u) then [scripts] else [])"

lemma map_of_filter_key: "j \<noteq> i \<Longrightarrow> map_of (filter (\<lambda>(k, _). k \<noteq> i) xs) j = map_of xs j"
  by (induction xs) auto

lemma template_of_inj: "template_of p = Some i \<Longrightarrow> template_of q = Some i \<Longrightarrow> p = q"
  by (cases p; cases q) auto

lemma add_items_frame [simp]:
  "added (add_items p u) = added u" "created (add_items p u) = created u" "resolved (add_items p u) = resolved u"
  "settings (add_items p u) = settings u" "waiting (add_items p u) = waiting u" "loads (add_items p u) = loads u" "ui_pc (add_items p u) = ui_pc u"
  by (cases p; simp add: from_template_def split: option.split)+

text \<open>Creating a panel whose template is still there adds its elements and uses up that template only.\<close>

lemma add_items_elements:
  assumes "\<And>i. template_of p = Some i \<Longrightarrow> map_of (templates u) i = Some (items_of p)"
  shows "elements (add_items p u) = elements u @ items_of p"
  using assms by (cases p) (simp_all add: from_template_def)

lemma add_items_templates:
  assumes "template_of q = Some i" and "q \<noteq> p"
  shows "map_of (templates (add_items p u)) i = map_of (templates u) i"
  using assms by (cases p; cases q) (auto simp: from_template_def map_of_filter_key split: option.split)

lemma when_check_frame [simp]:
  "added (when_check u) = added u" "settings (when_check u) = settings u" "created (when_check u) = created u" "resolved (when_check u) = resolved u"
  "elements (when_check u) = elements u" "templates (when_check u) = templates u" "ui_pc (when_check u) = ui_pc u"
  by (simp_all add: when_check_def)

lemma apply_defaults_frame [simp]:
  "added (apply_defaults u) = added u" "created (apply_defaults u) = created u" "resolved (apply_defaults u) = resolved u"
  "elements (apply_defaults u) = elements u" "templates (apply_defaults u) = templates u" "ui_pc (apply_defaults u) = ui_pc u"
  "waiting (apply_defaults u) = waiting u" "loads (apply_defaults u) = loads u"
  by (simp_all add: apply_defaults_def)

lemma add_panel_frame [simp]:
  "added (add_panel e u) = added u @ [e]" "created (add_panel e u) = created u" "resolved (add_panel e u) = resolved u"
  "elements (add_panel e u) = elements u" "templates (add_panel e u) = templates u" "ui_pc (add_panel e u) = ui_pc u"
  "waiting (add_panel e u) = waiting u" "loads (add_panel e u) = loads u"
  by (simp_all add: add_panel_def Let_def)

lemma uinv_page: "uinv page"
proof -
  have "map_of (templates page) i = Some (items_of p)" if "template_of p = Some i" for p i
    using that by (cases p) (auto simp: page_def)
  then show ?thesis by (simp add: uinv_def) (simp add: page_def)
qed

lemma uinv_ready:
  assumes "uinv u" and "ui_pc u \<le> length panel_layout"
  shows "uinv (ready_step u)"
proof (cases "ui_pc u < length panel_layout")
  case True
  have "\<forall>e \<in> set panel_layout. fst e \<in> set awaited" by (simp add: panel_layout_def awaited_def)
  then have "fst (panel_layout ! ui_pc u) \<in> set awaited" using True by (metis nth_mem)
  with True assms show ?thesis by (simp add: uinv_def ready_step_def)
next
  case False
  with assms show ?thesis by (auto simp: uinv_def ready_step_def when_done_def when_check_def Let_def)
qed

lemma uinv_create:
  assumes u: "uinv u" and p: "p \<in> fst ` set (added u)" "p \<notin> set (created u)"
  shows "uinv (on_create p (u\<lparr>created := created u @ [p]\<rparr>))"
proof -
  let ?v = "add_items p (u\<lparr>created := created u @ [p]\<rparr>)"
  let ?w = "?v\<lparr>resolved := resolved u @ [p]\<rparr>"
  have r: "on_create p (u\<lparr>created := created u @ [p]\<rparr>) = when_check ?w"
    using u p(2) by (simp add: on_create_def resolve_def uinv_def)
  have els: "elements ?v = elements u @ items_of p"
    using u p(2) by (subst add_items_elements) (auto simp: uinv_def)
  have tmp: "map_of (templates ?v) i = Some (items_of q)"
    if "template_of q = Some i" "q \<notin> set (created u)" "q \<noteq> p" for q i
    using add_items_templates [OF that(1,3), of "u\<lparr>created := created u @ [p]\<rparr>"] u that by (simp add: uinv_def)
  show ?thesis
    using u els tmp unfolding r uinv_def
    by (auto simp: when_check_def)
qed

lemma ui_reachable_uinv: "ui_reachable u \<Longrightarrow> uinv u"
  by (induction rule: ui_reachable.induct) (auto simp: uinv_page uinv_ready uinv_create)

text \<open>What the handler has added and set is determined by how far it has got.\<close>

lemma ui_reachable_progress:
  assumes "ui_reachable u"
  shows "added u = take (ui_pc u) panel_layout \<and> settings u = (if ui_pc u = 0 then [] else [(P_Timeline, Max_Size 100 0)])
      @ (if length panel_layout < ui_pc u then concat (map (\<lambda>(x, _). map (Pair x) panel_defaults) panel_layout) else [])"
  using assms
proof (induction rule: ui_reachable.induct)
  case ui_start
  then show ?case by (simp add: page_def)
next
  case (ui_ready u)
  show ?case
  proof (cases "ui_pc u < length panel_layout")
    case True
    then consider "ui_pc u = 0" | "ui_pc u = 1" | "ui_pc u = 2" | "ui_pc u = 3" by (force simp: panel_layout_def)
    then show ?thesis
      by cases (use ui_ready in \<open>simp_all add: ready_step_def add_panel_def panel_layout_def numeral_2_eq_2 numeral_3_eq_3\<close>)
  next
    case False
    then have "ui_pc u = length panel_layout" using ui_ready by simp
    with ui_ready.IH show ?thesis
      by (simp add: ready_step_def when_done_def apply_defaults_def Let_def) (simp add: panel_layout_def)
  qed
next
  case (ui_create u p)
  then show ?case by (simp add: on_create_def resolve_def Let_def)
qed

lemma defaults_before_scripts:
  assumes "ui_reachable u" and "loads u \<noteq> []"
  shows "(\<forall>x \<in> set awaited. \<forall>d \<in> set panel_defaults. (x, d) \<in> set (settings u)) \<and> added u = panel_layout"
proof -
  have "length panel_layout < ui_pc u" using ui_reachable_uinv [OF assms(1)] assms(2) by (auto simp: uinv_def split: if_splits)
  with ui_reachable_progress [OF assms(1)] show ?thesis by (auto simp: awaited_def panel_layout_def)
qed

text \<open>Every script's element belongs to one of the awaited panels.\<close>

lemma needs_awaited: "(s, i) \<in> set script_needs \<Longrightarrow> s \<in> set scripts \<and> (\<exists>p \<in> set awaited. i \<in> set (items_of p))"
  by (auto simp: script_needs_def scripts_def awaited_def)

lemma scripts_loaded:
  assumes "ui_reachable u"
  shows "loads u = (if length panel_layout < ui_pc u \<and> set awaited \<subseteq> set (created u) then [scripts] else [])"
    and "loads u \<noteq> [] \<Longrightarrow> (s, i) \<in> set script_needs \<Longrightarrow> i \<in> set (elements u)"
proof -
  have u: "uinv u" using assms by (rule ui_reachable_uinv)
  then show "loads u = (if length panel_layout < ui_pc u \<and> set awaited \<subseteq> set (created u) then [scripts] else [])"
    by (simp add: uinv_def)
  assume l: "loads u \<noteq> []" and s: "(s, i) \<in> set script_needs"
  obtain p where p: "p \<in> set awaited" "i \<in> set (items_of p)" using needs_awaited [OF s] by blast
  have "p \<in> set (created u)" using l u p(1) by (auto simp: uinv_def split: if_splits)
  with u p(2) show "i \<in> set (elements u)" by (auto simp: uinv_def)
qed

text \<open>
  The panel of the control flow graph is registered but never added, so its element never exists;
  \<open>Graph.render\<close> then throws and the mouse handlers of \<open>controls.js\<close> are attached to nothing.
\<close>

definition no_cfg :: "ui \<Rightarrow> bool" where
  "no_cfg u \<longleftrightarrow> ''cfg-static'' \<notin> set (elements u) \<and> (\<forall>(i, els) \<in> set (templates u). ''cfg-static'' \<notin> set els)"

lemma no_cfg_add_items: "no_cfg u \<Longrightarrow> p \<in> set awaited \<Longrightarrow> no_cfg (add_items p u)"
  by (cases p) (auto simp: no_cfg_def awaited_def from_template_def split: option.split dest!: map_of_SomeD)

lemma no_cfg_static: "ui_reachable u \<Longrightarrow> ''cfg-static'' \<notin> set (elements u)"
proof -
  assume "ui_reachable u"
  then have "no_cfg u"
  proof (induction rule: ui_reachable.induct)
    case (ui_create u p)
    then have "p \<in> set awaited" using ui_reachable_uinv [of u] unfolding uinv_def by blast
    from no_cfg_add_items [of "u\<lparr>created := created u @ [p]\<rparr>", OF _ this] ui_create show ?case
      by (simp add: on_create_def resolve_def no_cfg_def)
  qed (simp_all add: no_cfg_def page_def ready_step_def when_done_def Let_def)
  then show ?thesis by (simp add: no_cfg_def)
qed

end
