(* ===== verification/Changeeditor.thy ===== *)
theory Changeeditor
  imports Client_State
begin

text \<open>
  \<open>extra/web/changeeditor.js\<close>, a part of the Meteor version of the client that no page loads any
  more: the list of pending changes to memory, one entry per data address, in the session key
  \<open>pending\<close>. The template that draws it is a parameter.
\<close>

section \<open>Handlers\<close>

fun arr_of :: "sval option \<Rightarrow> sval list option" where
  "arr_of (Some (VArr xs)) = Some xs"
| "arr_of _ = None"

fun pending_daddr :: "sval \<Rightarrow> sval option" where
  "pending_daddr (VObj kvs) = map_of kvs ''daddr''"
| "pending_daddr _ = None"

definition pending_entry :: "sval \<Rightarrow> sval" where
  "pending_entry daddr = VObj [(''daddr'', daddr), (''ddata'', VStr ''0x0'')]"

text \<open>
  \<open>click #changeadd\<close>. The assignment \<open>pending[daddr] = "0x0"\<close> adds a property under a name that is no
  array index, which nothing reads.
\<close>

definition changeadd :: "world \<Rightarrow> world \<times> js_error option" where
  "changeadd w =
     (let (pe, w) = session_get ''pending'' False w;
          (daddr, w) = session_get ''daddr'' False w
      in case daddr of None \<Rightarrow> (w, None) | Some da \<Rightarrow>
         (case arr_of pe of
            None \<Rightarrow> (w, Some (TypeError ''length of undefined''))
          | Some ps \<Rightarrow>
              if \<exists>p \<in> set ps. \<not> loose_neq (pending_daddr p) (Some da) then (w, None)
              else (session_set ''pending'' (Some (VArr (ps @ [pending_entry da]))) w, None)))"

definition changeclear :: "world \<Rightarrow> world" where
  "changeclear w = session_set ''pending'' (Some (VArr [])) w"

text \<open>\<open>change .changeedit\<close>: the first entry with the address of the row gets the typed value.\<close>

fun set_ddata :: "string \<Rightarrow> sval \<Rightarrow> sval" where
  "set_ddata v (VObj kvs) = VObj (obj_put ''ddata'' (VStr v) kvs)"
| "set_ddata v x = x"

fun edit_first :: "sval \<Rightarrow> string \<Rightarrow> sval list \<Rightarrow> sval list option" where
  "edit_first daddr v [] = None"
| "edit_first daddr v (p # ps) =
     (if \<not> loose_neq (pending_daddr p) (Some daddr) then Some (set_ddata v p # ps)
      else map_option ((#) p) (edit_first daddr v ps))"

definition changeedit :: "sval \<Rightarrow> string \<Rightarrow> world \<Rightarrow> world \<times> js_error option" where
  "changeedit daddr v w =
     (let (pe, w) = session_get ''pending'' False w in
      case arr_of pe of
        None \<Rightarrow> (w, Some (TypeError ''length of undefined''))
      | Some ps \<Rightarrow>
          (case edit_first daddr v ps of
             None \<Rightarrow> (w, None)
           | Some ps' \<Rightarrow> (session_set ''pending'' (Some (VArr ps')) w, None)))"

definition autorun_pending :: "(sval option \<Rightarrow> string) \<Rightarrow> bool \<Rightarrow> world \<Rightarrow> world" where
  "autorun_pending template shown w =
     (let (pe, w) = session_get ''pending'' False w
      in if \<not> shown then w else set_dom ''pending'' (template pe) w)"

section \<open>One entry per address\<close>

text \<open>The addresses are strings, each listed once.\<close>

definition pending_ok :: "sval list \<Rightarrow> bool" where
  "pending_ok ps \<longleftrightarrow> (\<forall>p \<in> set ps. \<exists>s. pending_daddr p = Some (VStr s)) \<and> distinct (map pending_daddr ps)"

lemma changeadd_ok:
  assumes "msession w ''pending'' = Some (VArr ps)" and "msession w ''daddr'' = Some (VStr a)" and "pending_ok ps"
  shows "\<exists>qs. snd (changeadd w) = None \<and> msession (fst (changeadd w)) ''pending'' = Some (VArr (ps @ qs))
    \<and> pending_ok (ps @ qs) \<and> Some (VStr a) \<in> pending_daddr ` set (ps @ qs)"
proof (cases "\<exists>p \<in> set ps. \<not> loose_neq (pending_daddr p) (Some (VStr a))")
  case True
  then have "Some (VStr a) \<in> pending_daddr ` set ps" using loose_neq_same by force
  with True assms show ?thesis by (intro exI [of _ "[]"]) (simp add: changeadd_def Let_def split_beta)
next
  case False
  have "Some (VStr a) \<notin> pending_daddr ` set ps"
  proof
    assume "Some (VStr a) \<in> pending_daddr ` set ps"
    then obtain p where "p \<in> set ps" "pending_daddr p = Some (VStr a)" by auto
    with False show False by (metis loose_neq.simps(3))
  qed
  with False assms show ?thesis
    by (intro exI [of _ "[pending_entry (VStr a)]"])
       (auto simp: changeadd_def Let_def split_beta pending_entry_def pending_ok_def)
qed

lemma edit_first_daddr: "edit_first d v ps = Some qs \<Longrightarrow> map pending_daddr qs = map pending_daddr ps"
proof (induction ps arbitrary: qs)
  case (Cons p ps)
  have "pending_daddr (set_ddata v p) = pending_daddr p" by (cases p) simp_all
  with Cons show ?case by (auto split: if_splits)
qed simp

lemma changeedit_ok:
  assumes "msession w ''pending'' = Some (VArr ps)" and "pending_ok ps"
  shows "\<exists>qs. snd (changeedit d v w) = None \<and> msession (fst (changeedit d v w)) ''pending'' = Some (VArr qs)
    \<and> map pending_daddr qs = map pending_daddr ps \<and> pending_ok qs"
proof (cases "edit_first d v ps")
  case None
  with assms show ?thesis by (simp add: changeedit_def Let_def split_beta)
next
  case (Some qs)
  then have m: "map pending_daddr qs = map pending_daddr ps" by (rule edit_first_daddr)
  then have "pending_daddr ` set qs = pending_daddr ` set ps" by (metis set_map)
  then have "pending_ok qs" using m assms(2) unfolding pending_ok_def by (metis (no_types, lifting) image_iff)
  with Some m assms show ?thesis by (simp add: changeedit_def Let_def split_beta)
qed

end
