(* ===== verification/Memdb.thy ===== *)
theory Memdb
  imports JS_Number
begin

text \<open>
  \<open>extra/servers/regmem.js\<close>: the server side of the register and memory view. For every register
  or memory address the history of its values is a list of pairs (change number, value), sorted by
  change number; the value at a change is found by binary search for the last entry not above it.
\<close>

section \<open>Building and searching a history\<close>

type_synonym 'v history = "(int \<times> 'v) list"

text \<open>
  \<open>map_create\<close>: every history becomes an array of pairs and is sorted by its first component.
  Change numbers are small integers; the keys of the parsed JSON object compare as numbers.
\<close>

definition map_create :: "('k \<times> 'v history) list \<Rightarrow> ('k \<times> 'v history) list" where
  "map_create dic = map (\<lambda>(j, h). (j, sort_key fst h)) dic"

text \<open>The search loop: \<open>b\<close> and \<open>e\<close> bound the indices still in question.\<close>

function getbelow_loop :: "'v history \<Rightarrow> int \<Rightarrow> int \<Rightarrow> int \<Rightarrow> int option \<Rightarrow> int option" where
  "getbelow_loop m a b e best =
     (if b \<le> e then
        let mid = (b + e) div 2 in
        if fst (m ! nat mid) \<le> a then getbelow_loop m a (mid + 1) e (Some mid)
        else getbelow_loop m a b (mid - 1) best
      else best)"
  by pat_completeness auto
termination
  by (relation "measure (\<lambda>(m, a, b, e, best). nat (e - b + 1))") auto

declare getbelow_loop.simps [simp del]

definition map_getbelow :: "'v history option \<Rightarrow> int \<Rightarrow> 'v option" where
  "map_getbelow mp a = (case mp of None \<Rightarrow> None | Some m \<Rightarrow>
     (case getbelow_loop m a 0 (int (length m) - 1) None of
        None \<Rightarrow> None
      | Some best \<Rightarrow> Some (snd (m ! nat best))))"

section \<open>The database and the two requests\<close>

record 'v memdb =
  regs :: "(int \<times> 'v history) list"
  mem :: "(int \<times> 'v history) list"

text \<open>
  The callback of \<open>fs.readFile\<close>: an error of the file system leaves the database as it is; \<open>JSON.parse\<close>
  (or the access to the result, if it is \<open>null\<close>) can throw; otherwise both tables are replaced. A table
  the file does not have is an empty one.
\<close>

type_synonym 'v tables = "(int \<times> 'v history) list"

datatype 'v read_result =
    Read_error                            \<comment> \<open>\<open>err\<close> is set\<close>
  | Read_throws js_error                  \<comment> \<open>what is read is no database\<close>
  | Read_tables "'v tables" "'v tables"   \<comment> \<open>\<open>dat['regs']\<close> and \<open>dat['mem']\<close>\<close>

fun read_done :: "'v read_result \<Rightarrow> 'v memdb \<Rightarrow> 'v memdb \<times> js_error option" where
  "read_done Read_error db = (db, None)"
| "read_done (Read_throws e) db = (db, Some e)"
| "read_done (Read_tables r m) db = (\<lparr>regs = map_create r, mem = map_create m\<rparr>, None)"

definition X86REGS :: "string list" where
  "X86REGS = [''EAX'', ''ECX'', ''EDX'', ''EBX'', ''ESP'', ''EBP'', ''ESI'', ''EDI'', ''EIP'']"

record 'v regval =
  rv_name :: string
  rv_address :: int
  rv_value :: 'v

fun getregisters_loop :: "'v memdb \<Rightarrow> int \<Rightarrow> nat \<Rightarrow> string list \<Rightarrow> 'v regval list" where
  "getregisters_loop db clnum i [] = []"
| "getregisters_loop db clnum i (r # rs) =
     (case map_getbelow (map_of (regs db) (int i * 4)) clnum of
        None \<Rightarrow> getregisters_loop db clnum (Suc i) rs
      | Some v \<Rightarrow> \<lparr>rv_name = r, rv_address = int i * 4, rv_value = v\<rparr> # getregisters_loop db clnum (Suc i) rs)"

definition on_getregisters :: "'v memdb \<Rightarrow> int \<Rightarrow> 'v regval list" where
  "on_getregisters db clnum = getregisters_loop db clnum 0 X86REGS"

function getmemory_loop :: "'v memdb \<Rightarrow> int \<Rightarrow> int \<Rightarrow> int \<Rightarrow> (int \<times> 'v) list" where
  "getmemory_loop db clnum i stop =
     (if i < stop then
        (case map_getbelow (map_of (mem db) i) clnum of None \<Rightarrow> [] | Some v \<Rightarrow> [(i, v)])
          @ getmemory_loop db clnum (i + 1) stop
      else [])"
  by pat_completeness auto
termination
  by (relation "measure (\<lambda>(db, clnum, i, stop). nat (stop - i))") auto

declare getmemory_loop.simps [simp del]

definition on_getmemory :: "'v memdb \<Rightarrow> int \<Rightarrow> int \<Rightarrow> int \<Rightarrow> (int \<times> 'v) list" where
  "on_getmemory db address len clnum = getmemory_loop db clnum address (address + len)"

section \<open>The search is right\<close>

text \<open>Specification: the last entry whose change number is not above the wanted one.\<close>

definition last_below :: "'v history \<Rightarrow> int \<Rightarrow> 'v option" where
  "last_below m a = (let below = filter (\<lambda>p. fst p \<le> a) m
     in if below = [] then None else Some (snd (last below)))"

definition cut :: "'v history \<Rightarrow> int \<Rightarrow> nat \<Rightarrow> bool" where
  "cut m a n \<longleftrightarrow> n \<le> length m \<and> (\<forall>i < n. fst (m ! i) \<le> a) \<and> (\<forall>i. n \<le> i \<longrightarrow> i < length m \<longrightarrow> a < fst (m ! i))"

lemma sorted_cut:
  assumes "sorted (map fst m)"
  shows "cut m a (length (filter (\<lambda>p. fst p \<le> a) m))"
    and "filter (\<lambda>p. fst p \<le> a) m = take (length (filter (\<lambda>p. fst p \<le> a) m)) m"
proof -
  have t: "filter (\<lambda>p. fst p \<le> a) m = takeWhile (\<lambda>p. fst p \<le> a) m"
    using assms
  proof (induction m)
    case (Cons p m)
    show ?case
    proof (cases "fst p \<le> a")
      case False
      then have "\<forall>q \<in> set m. \<not> fst q \<le> a" using Cons.prems by auto
      with False show ?thesis by simp
    qed (use Cons in simp)
  qed simp
  let ?n = "length (takeWhile (\<lambda>p. fst p \<le> a) m)"
  show "filter (\<lambda>p. fst p \<le> a) m = take (length (filter (\<lambda>p. fst p \<le> a) m)) m"
    unfolding t by (metis takeWhile_eq_take)
  have "\<forall>i < ?n. fst (m ! i) \<le> a" by (metis nth_mem set_takeWhileD takeWhile_nth)
  moreover have "a < fst (m ! i)" if "?n \<le> i" "i < length m" for i
  proof -
    have "\<not> fst (m ! ?n) \<le> a" using that by (intro nth_length_takeWhile) auto
    moreover have "fst (m ! ?n) \<le> fst (m ! i)" using assms that sorted_nth_mono [of "map fst m" ?n i] by simp
    ultimately show ?thesis by linarith
  qed
  ultimately show "cut m a (length (filter (\<lambda>p. fst p \<le> a) m))"
    unfolding t cut_def using length_takeWhile_le by auto
qed

text \<open>
  The loop invariant: the cut lies between \<open>b\<close> and \<open>e + 1\<close>, and \<open>best\<close> is the index just
  below \<open>b\<close>, if there is one. So the loop ends with the index just below the cut.
\<close>

lemma getbelow_loop_cut:
  assumes "cut m a n" and "0 \<le> b" and "b \<le> int n" and "int n \<le> e + 1" and "e < int (length m)"
    and "best = (if b = 0 then None else Some (b - 1))"
  shows "getbelow_loop m a b e best = (if n = 0 then None else Some (int n - 1))"
  using assms
proof (induction m a b e best rule: getbelow_loop.induct)
  case (1 m a b e best)
  show ?case
  proof (cases "b \<le> e")
    case False
    with "1.prems" have "b = int n" by linarith
    with False "1.prems" show ?thesis by (subst getbelow_loop.simps) simp
  next
    case True
    define mid where "mid = (b + e) div 2"
    have mid: "b \<le> mid" "mid \<le> e" "nat mid < length m" using True "1.prems" by (auto simp: mid_def)
    show ?thesis
    proof (cases "fst (m ! nat mid) \<le> a")
      case le: True
      have "nat mid < n" using "1.prems"(1) le mid(3) unfolding cut_def by (meson linorder_not_le)
      then have "mid < int n" using mid "1.prems"(2) by linarith
      with True le mid "1.prems" "1.IH"(1) [of mid] show ?thesis
        by (subst getbelow_loop.simps) (simp add: mid_def [symmetric] Let_def)
    next
      case gt: False
      have "n \<le> nat mid" using "1.prems"(1) gt mid(3) unfolding cut_def by (meson linorder_not_le)
      then have "int n \<le> mid" using mid "1.prems"(2) by linarith
      with True gt mid "1.prems" "1.IH"(2) [of mid] show ?thesis
        by (subst getbelow_loop.simps) (simp add: mid_def [symmetric] Let_def)
    qed
  qed
qed

lemma map_getbelow_last_below:
  assumes "sorted (map fst m)"
  shows "map_getbelow (Some m) a = last_below m a"
proof -
  let ?f = "filter (\<lambda>p. fst p \<le> a) m"
  let ?n = "length ?f"
  have c: "cut m a ?n" using assms by (rule sorted_cut)
  then have "?n \<le> length m" by (simp add: cut_def)
  then have loop: "getbelow_loop m a 0 (int (length m) - 1) None = (if ?n = 0 then None else Some (int ?n - 1))"
    using c by (intro getbelow_loop_cut) auto
  show ?thesis
  proof (cases "?f = []")
    case True
    then have "getbelow_loop m a 0 (int (length m) - 1) None = None" using loop by (simp only: list.size(3) simp_thms if_True)
    with True show ?thesis by (simp only: map_getbelow_def last_below_def option.case Let_def simp_thms if_True)
  next
    case False
    then have "m ! (?n - 1) = last ?f"
      using sorted_cut(2) [OF assms, of a] by (metis \<open>?n \<le> length m\<close> last_conv_nth nth_take diff_less length_greater_0_conv less_numeral_extra(1))
    moreover have "nat (int ?n - 1) = ?n - 1" by simp
    ultimately show ?thesis using False loop by (simp add: map_getbelow_def last_below_def)
  qed
qed

lemma map_create_sorted: "(j, h) \<in> set (map_create dic) \<Longrightarrow> sorted (map fst h)"
  by (auto simp: map_create_def)

lemma set_getmemory_loop:
  "set (getmemory_loop db clnum i stop) =
    {(j, v). i \<le> j \<and> j < stop \<and> map_getbelow (map_of (mem db) j) clnum = Some v}"
proof (induction db clnum i stop rule: getmemory_loop.induct)
  case (1 db clnum i stop)
  show ?case
  proof (cases "i < stop")
    case True
    then have "set (getmemory_loop db clnum i stop)
        = {(j, v). j = i \<and> map_getbelow (map_of (mem db) j) clnum = Some v}
          \<union> {(j, v). i + 1 \<le> j \<and> j < stop \<and> map_getbelow (map_of (mem db) j) clnum = Some v}"
      using 1 by (subst getmemory_loop.simps) (auto split: option.splits)
    also have "\<dots> = {(j, v). i \<le> j \<and> j < stop \<and> map_getbelow (map_of (mem db) j) clnum = Some v}"
      using True by auto
    finally show ?thesis .
  next
    case False
    then show ?thesis by (subst getmemory_loop.simps) auto
  qed
qed

lemma set_getregisters_loop:
  "set (getregisters_loop db clnum i rs) =
    {\<lparr>rv_name = rs ! k, rv_address = int (i + k) * 4, rv_value = v\<rparr> |k v.
      k < length rs \<and> map_getbelow (map_of (regs db) (int (i + k) * 4)) clnum = Some v}"
proof (induction rs arbitrary: i)
  case (Cons r rs)
  have "{\<lparr>rv_name = (r # rs) ! k, rv_address = int (i + k) * 4, rv_value = v\<rparr> |k v.
      k < length (r # rs) \<and> map_getbelow (map_of (regs db) (int (i + k) * 4)) clnum = Some v}
    = {\<lparr>rv_name = r, rv_address = int i * 4, rv_value = v\<rparr> |v. map_getbelow (map_of (regs db) (int i * 4)) clnum = Some v}
      \<union> {\<lparr>rv_name = rs ! k, rv_address = int (Suc i + k) * 4, rv_value = v\<rparr> |k v.
      k < length rs \<and> map_getbelow (map_of (regs db) (int (Suc i + k) * 4)) clnum = Some v}"
    (is "?A = ?B \<union> ?C")
  proof (intro equalityI subsetI)
    fix x assume "x \<in> ?A"
    then obtain k v where "x = \<lparr>rv_name = (r # rs) ! k, rv_address = int (i + k) * 4, rv_value = v\<rparr>"
      "k < length (r # rs)" "map_getbelow (map_of (regs db) (int (i + k) * 4)) clnum = Some v" by blast
    then show "x \<in> ?B \<union> ?C" by (cases k) auto
  next
    fix x assume "x \<in> ?B \<union> ?C"
    then show "x \<in> ?A"
    proof
      assume "x \<in> ?B"
      then show ?thesis by (auto intro!: exI [of _ "0::nat"])
    next
      assume "x \<in> ?C"
      then obtain k v where "x = \<lparr>rv_name = rs ! k, rv_address = int (Suc i + k) * 4, rv_value = v\<rparr>"
        "k < length rs" "map_getbelow (map_of (regs db) (int (Suc i + k) * 4)) clnum = Some v" by blast
      then show ?thesis by (intro CollectI exI [of _ "Suc k"]) auto
    qed
  qed
  with Cons [of "Suc i"] show ?case by (auto split: option.splits)
qed simp

lemma map_getbelow_created:
  "map_getbelow (map_of (map_create dic) k) a =
    (case map_of dic k of None \<Rightarrow> None | Some h \<Rightarrow> last_below (sort_key fst h) a)"
proof -
  have "map_of (map_create dic) k = map_option (sort_key fst) (map_of dic k)"
    by (induction dic) (auto simp: map_create_def)
  then show ?thesis
    by (cases "map_of dic k") (simp_all add: map_getbelow_def [of None] map_getbelow_last_below)
qed

section \<open>Watching the file\<close>

text \<open>
  The server reads the database when it starts and half a second after the last change to the file:
  every change cancels the timer of the one before. Reading is asynchronous: \<open>fs.readFile\<close> returns at
  once, and its callback runs later, so that several reads can be under way at once and can end in
  any order. The timers are those that are armed, the reads those whose callback has not run.
\<close>

record 'v server =
  srv_db :: "'v memdb"
  srv_tmout :: "nat option"
  srv_timers :: "nat list"
  srv_reads :: "nat list"
  srv_next :: nat       \<comment> \<open>the name of the next timer or read\<close>

definition read_memdb :: "'v server \<Rightarrow> 'v server" where
  "read_memdb s = s\<lparr>srv_reads := srv_reads s @ [srv_next s], srv_next := Suc (srv_next s)\<rparr>"

definition watch_tripped :: "'v server \<Rightarrow> 'v server" where
  "watch_tripped s =
     (let s = (case srv_tmout s of None \<Rightarrow> s
               | Some t \<Rightarrow> s\<lparr>srv_timers := removeAll t (srv_timers s), srv_tmout := None\<rparr>)
      in s\<lparr>srv_tmout := Some (srv_next s), srv_timers := srv_timers s @ [srv_next s], srv_next := Suc (srv_next s)\<rparr>)"

text \<open>A timer fires: \<open>read_memdb\<close> runs; \<open>tmout\<close> keeps its old value.\<close>

definition watch_timer :: "nat \<Rightarrow> 'v server \<Rightarrow> 'v server" where
  "watch_timer t s = read_memdb (s\<lparr>srv_timers := removeAll t (srv_timers s)\<rparr>)"

text \<open>The callback of a read runs.\<close>

definition read_returns :: "nat \<Rightarrow> 'v read_result \<Rightarrow> 'v server \<Rightarrow> 'v server \<times> js_error option" where
  "read_returns i res s = (let (db, r) = read_done res (srv_db s)
     in (s\<lparr>srv_reads := removeAll i (srv_reads s), srv_db := db\<rparr>, r))"

definition server_start :: "'v server" where
  "server_start = read_memdb \<lparr>srv_db = \<lparr>regs = [], mem = []\<rparr>, srv_tmout = None, srv_timers = [], srv_reads = [], srv_next = 0\<rparr>"

text \<open>
  The runs of the server: sequences of events that can happen, in which no callback throws (an
  exception nobody catches ends the process).
\<close>

datatype 'v srv_event = Changed | Timer_fires nat | Read_returns nat "'v read_result"

fun srv_step :: "'v srv_event \<Rightarrow> 'v server \<Rightarrow> 'v server \<times> js_error option" where
  "srv_step Changed s = (watch_tripped s, None)"
| "srv_step (Timer_fires t) s = (watch_timer t s, None)"
| "srv_step (Read_returns i res) s = read_returns i res s"

fun srv_can :: "'v srv_event \<Rightarrow> 'v server \<Rightarrow> bool" where
  "srv_can Changed s = True"
| "srv_can (Timer_fires t) s = (t \<in> set (srv_timers s))"
| "srv_can (Read_returns i res) s = (i \<in> set (srv_reads s) \<and> snd (read_returns i res s) = None)"

fun srv_run :: "'v srv_event list \<Rightarrow> 'v server \<Rightarrow> 'v server" where
  "srv_run [] s = s"
| "srv_run (e # es) s = srv_run es (fst (srv_step e s))"

fun srv_ok :: "'v srv_event list \<Rightarrow> 'v server \<Rightarrow> bool" where
  "srv_ok [] s = True"
| "srv_ok (e # es) s = (srv_can e s \<and> srv_ok es (fst (srv_step e s)))"

lemma srv_run_append [simp]: "srv_run (as @ bs) s = srv_run bs (srv_run as s)"
  and srv_ok_append [simp]: "srv_ok (as @ bs) s \<longleftrightarrow> srv_ok as s \<and> srv_ok bs (srv_run as s)"
  by (induction as arbitrary: s) auto

text \<open>Specification: the tables of the read that ended last.\<close>

fun last_tables :: "'v srv_event list \<Rightarrow> ('v tables \<times> 'v tables) option \<Rightarrow> ('v tables \<times> 'v tables) option" where
  "last_tables [] d = d"
| "last_tables (Read_returns i (Read_tables r m) # es) d = last_tables es (Some (r, m))"
| "last_tables (e # es) d = last_tables es d"

definition db_of :: "('v tables \<times> 'v tables) option \<Rightarrow> 'v memdb" where
  "db_of d = (case d of None \<Rightarrow> \<lparr>regs = [], mem = []\<rparr> | Some (r, m) \<Rightarrow> fst (read_done (Read_tables r m) \<lparr>regs = [], mem = []\<rparr>))"

lemma srv_db_watch [simp]: "srv_db (watch_tripped s) = srv_db s" "srv_db (watch_timer t s) = srv_db s"
  by (simp_all add: watch_tripped_def watch_timer_def read_memdb_def Let_def split: option.splits)

lemma srv_run_db: "srv_ok es s \<Longrightarrow> srv_db s = db_of d \<Longrightarrow> srv_db (srv_run es s) = db_of (last_tables es d)"
proof (induction es d arbitrary: s rule: last_tables.induct)
  case (2 i r m es d)
  then show ?case by (simp add: read_returns_def db_of_def)
qed (simp_all add: read_returns_def)

text \<open>The changes are debounced: at most one timer is armed, and \<open>tmout\<close> names it.\<close>

definition debounced :: "'v server \<Rightarrow> bool" where
  "debounced s \<longleftrightarrow> srv_timers s = [] \<or> (\<exists>t. srv_timers s = [t] \<and> srv_tmout s = Some t)"

lemma debounced_tripped: "debounced s \<Longrightarrow> debounced (watch_tripped s) \<and> srv_timers (watch_tripped s) \<noteq> []"
  by (auto simp: debounced_def watch_tripped_def Let_def split: option.splits)

lemma debounced_step: "debounced s \<Longrightarrow> srv_can e s \<Longrightarrow> debounced (fst (srv_step e s))"
  by (cases e) (auto simp: debounced_tripped, auto simp: debounced_def watch_timer_def read_memdb_def read_returns_def split_beta Let_def)

lemma debounced_run: "debounced s \<Longrightarrow> srv_ok es s \<Longrightarrow> debounced (srv_run es s)"
  by (induction es arbitrary: s) (auto simp: debounced_step)

lemma debounced_start [simp]: "debounced server_start"
  by (simp add: debounced_def server_start_def read_memdb_def)

text \<open>What a database that was read answers, in terms of the file.\<close>

lemma getmemory_answer:
  "(j, v) \<in> set (on_getmemory (fst (read_done (Read_tables r m) db)) address len clnum) \<longleftrightarrow>
     address \<le> j \<and> j < address + len \<and> (\<exists>h. map_of m j = Some h \<and> last_below (sort_key fst h) clnum = Some v)"
  by (auto simp: on_getmemory_def set_getmemory_loop map_getbelow_created split: option.splits)

lemma getregisters_answer:
  "x \<in> set (on_getregisters (fst (read_done (Read_tables r m) db)) clnum) \<longleftrightarrow>
     (\<exists>k h v. k < length X86REGS \<and> x = \<lparr>rv_name = X86REGS ! k, rv_address = int k * 4, rv_value = v\<rparr>
        \<and> map_of r (int k * 4) = Some h \<and> last_below (sort_key fst h) clnum = Some v)"
  unfolding on_getregisters_def set_getregisters_loop
  by (auto simp: map_getbelow_created split: option.splits)

lemma getmemory_db_of:
  "set (on_getmemory (db_of d) address len clnum) = (case d of None \<Rightarrow> {}
     | Some (r, m) \<Rightarrow> {(j, v). address \<le> j \<and> j < address + len
         \<and> (\<exists>h. map_of m j = Some h \<and> last_below (sort_key fst h) clnum = Some v)})"
proof (cases d)
  case None
  then show ?thesis by (auto simp: db_of_def on_getmemory_def set_getmemory_loop map_getbelow_def)
next
  case (Some p)
  then show ?thesis
    using getmemory_answer [where r = "fst p" and m = "snd p" and db = "\<lparr>regs = [], mem = []\<rparr>"]
    by (auto simp: db_of_def split_beta simp del: read_done.simps)
qed

text \<open>
  A change of the file arms one timer; when it fires, a read begins; when the read ends with tables,
  they are the last ones.
\<close>

lemma server_follows:
  assumes "debounced s"
  shows "\<exists>t i. srv_timers (watch_tripped s) = [t] \<and> srv_timers (watch_timer t (watch_tripped s)) = []
    \<and> srv_reads (watch_timer t (watch_tripped s)) = srv_reads s @ [i]
    \<and> (\<forall>r m. srv_ok [Changed, Timer_fires t, Read_returns i (Read_tables r m)] s)"
proof -
  obtain t where t: "srv_timers (watch_tripped s) = [t]"
    using debounced_tripped [OF assms] by (auto simp: debounced_def)
  have "srv_reads (watch_tripped s) = srv_reads s" by (simp add: watch_tripped_def Let_def split: option.splits)
  with t show ?thesis
    by (intro exI [of _ t] exI [of _ "srv_next (watch_tripped s)"]) (simp add: watch_timer_def read_memdb_def read_returns_def)
qed

text \<open>
  The read that ends last wins, even when it is not the one that began last: if the read of the
  start ends after the read of a change, the server answers from the old file.
\<close>

lemma late_read_wins:
  "srv_ok [Changed, Timer_fires 1, Read_returns 2 (Read_tables r m), Read_returns 0 (Read_tables r' m')] server_start
   \<and> srv_db (srv_run [Changed, Timer_fires 1, Read_returns 2 (Read_tables r m), Read_returns 0 (Read_tables r' m')] server_start)
     = db_of (Some (r', m'))"
  by (simp add: server_start_def watch_tripped_def watch_timer_def read_memdb_def read_returns_def db_of_def numeral_2_eq_2)

end
