(* ===== verification/Spec2Isabelle.thy ===== *)
theory Spec2Isabelle
  imports Flag_State UI Changeeditor Memdb
begin

text \<open>
  Verification of the web client of QIRA, a timeless debugger: the server records every change a
  program makes to its registers and memory, numbered by \<^emph>\<open>change numbers\<close> (\<open>clnum\<close>) in one or
  several \<^emph>\<open>forks\<close>; the client in the browser (\<open>src/web/client\<close>) lets the user select a change and
  addresses and shows memory, registers, instructions, system calls, the timeline and the control
  flow graph for the selection.

  \<^bold>\<open>How the parts interact.\<close> The selection is a table of session keys (\<open>clnum\<close>, \<open>forknum\<close>,
  \<open>iaddr\<close>, \<open>daddr\<close>, \<open>iview\<close>, \<open>dview\<close>, \<open>cview\<close>, \<open>sview\<close>, \<open>max_clnum\<close>, \<open>pmaps\<close>, \<open>flat\<close>,
  \<open>dirtyiaddr\<close>). Every script registers functions with \<open>Deps.autorun\<close>; the engine runs one again
  when a key it has read is set. These functions send requests to the server or redraw; answers of
  the server and actions of the user set keys. The model has one state for all of it (\<open>world\<close> in
  \<open>Client_State\<close>), one function per handler, and the event loop over them (\<open>Events\<close>).

  \<^bold>\<open>Theories.\<close>
  \<^item> \<open>Prelude\<close>: exceptions, objects as association lists in the order of their keys, \<open>indexOf\<close>,
    \<open>splice\<close>, and lemmas the components share.
  \<^item> \<open>JS_Number\<close>: the numbers of JavaScript, with rounding to 53 bits, infinities and NaN, their
    arithmetic and comparison, and the 32-bit operators. \<open>ji\<close> makes a number of an integer; on
    integers below \<open>2 ^ 53\<close> (\<open>safe\<close>) the arithmetic is exact; \<open>f64_near\<close> bounds the error of
    every other operation.
  \<^item> \<open>JS_String\<close>: \<open>parseInt\<close>, \<open>parseFloat\<close>, printing in a base, \<open>split\<close>, \<open>substring\<close>, \<open>trim\<close>.
  \<^item> \<open>Bignum\<close> (\<open>compatibility/bignum.js\<close>): addresses are hexadecimal strings; \<open>hexv\<close> is the number
    an address denotes, \<open>addr_of\<close> the canonical string of a number. The locale \<open>addr_arith\<close> is the
    contract that \<open>Haddrline\<close> relies on.
  \<^item> \<open>Fakemeteor\<close> (\<open>compatibility/fakemeteor.js\<close>): \<open>Session\<close> and \<open>Deps\<close>, generic in the registered
    functions; the locale \<open>reactive\<close> states what a registered function must keep, the locale
    \<open>store\<close> what a table of keys promises. \<open>minv\<close> is the invariant of queue and timer.
  \<^item> \<open>Client_State\<close>: session values, the state, frame facts. \<open>engine\<close> is the part of the state the
    engine owns; most functions of the client keep it.
  \<^item> \<open>Base\<close> (\<open>compatibility/base.js\<close>): the browser history, types of addresses, the views and the
    list of forks.
  \<^item> \<open>Highlight\<close> (\<open>compatibility/highlight.js\<close>): escaping, marking addresses, registers and opcodes,
    names of addresses. The regular expression is the alternation it denotes (\<open>re_match\<close>).
  \<^item> \<open>Vtimeline\<close> (\<open>vtimeline.js\<close>): the table of flags (locale \<open>flag_table\<close>: its abstract view counts
    the flags of a type at a point), zooming, dragging, moving between flags.
  \<^item> \<open>Strace\<close>, \<open>Haddrline\<close>, \<open>Regmem\<close>, \<open>Idump\<close>, \<open>Controls\<close> (\<open>strace.js\<close>, \<open>haddrline.js\<close>,
    \<open>regmem.js\<close>, \<open>idump.js\<close> with \<open>ida.js\<close>, \<open>controls.js\<close>): the views and the user's actions.
  \<^item> \<open>Graph\<close>, \<open>Graph_Layout\<close>, \<open>Static_View\<close> (\<open>static/graph.js\<close>, \<open>static/static.js\<close>): the control
    flow graph, its levels, its drawing from the answer of the layout service, and its construction
    from the basic blocks of a function. \<open>ginv\<close> says that adjacency lists and edges agree.
  \<^item> \<open>Client\<close>: which autorun is which function, and the interpretation of \<open>reactive\<close> on them.
    \<open>Events\<close>: all events, \<open>handle\<close>, and the reachable states. \<open>Requests\<close>: the specification of the
    requests a selection calls for, and that every change of them is noticed. \<open>Flag_State\<close>: the table of flags over all reachable states.
  \<^item> \<open>UI\<close> (\<open>ui.js\<close>): the panels, and when the scripts are loaded.
  \<^item> \<open>Memdb\<close> (\<open>src/extra/servers/regmem.js\<close>): the histories of memory and registers on the server
    and their binary search; \<open>last_below\<close> is its specification; the debounced watch on the file
    and the asynchronous reads, as runs of single steps in any order.
  \<^item> \<open>Changeeditor\<close> (\<open>src/extra/web/changeeditor.js\<close>): the list of pending changes, a part no page
    loads any more.

  \<^bold>\<open>Conventions.\<close> \<open>undefined\<close> is \<open>None\<close>. A handler that can throw returns the state it leaves and the
  exception, if any. Objects enumerate their keys in the order of the association list. Elements of
  the page are modelled where the scripts read them back or where a property speaks of them; other
  drawing is the markup put into an element (\<open>doms\<close>).

  \<^bold>\<open>Loops.\<close> A loop whose end is not obvious from its shape is a \<open>partial_function\<close> or a \<open>function\<close>
  with a measure: the padding loop of \<open>bn_add\<close>, the loops over pages (C30), over the words of
  memory (C37), the binary search (the interval shrinks) and the levels of the graph (at most 101
  by the bound in the code, C34). No fuel is used.

  \<^bold>\<open>Parameters.\<close> What a read of the server's file gives (an error, an exception of \<open>JSON.parse\<close>, or
  tables), the layout service, the sizes of blocks on the page, the tag service and the answers
  of the user are arguments of the functions that use them.

  \<^bold>\<open>What the properties show.\<close> C1-C5 addresses; C6-C11 the engine over all reachable states, from the
  invariant of its queue to its coming to rest; C12-C14 history, views and forks; C15 the requests;
  C16-C23 the timeline and its flags; C24 highlighted text; C25-C27 the server's histories; C28-C29 system
  calls; C30-C32 pages; C33-C35 the graph; C36-C38 memory and instructions; C39 the socket to IDA;
  C40 the loading of the scripts.

  \<^bold>\<open>Not modelled.\<close> \<open>async_tags_request\<close> (never called), \<open>debugPrint\<close> and logging; vendored libraries; the server, the
  tracers and the plugins, which are not JavaScript.
\<close>

section \<open>Addresses\<close>

text \<open>C1. Adding to an address: for a hexadecimal address of up to sixteen digits and a summand of
  fewer than 33 bits whose sum is not negative, \<open>bn_add\<close> returns an address denoting the sum.\<close>

theorem bn_add_exact:
  assumes "addr64 s" and "- (2 ^ 32) < k" and "k < 2 ^ 32" and "0 \<le> int (hexv s) + k"
  shows "is_addr (bn_add s (ji k)) \<and> int (hexv (bn_add s (ji k))) = int (hexv s) + k"
  using assms by (rule bn_add_val)

theorem bn_add_exact_witness:
  "hexv (bn_add ''0x1fffffffff'' (ji 1)) = 0x2000000000"
  using bn_add_exact [of "''0x1fffffffff''" 1] by (simp add: addr_eval)

text \<open>C2. Canonical addresses (lower case, no leading zeros, below \<open>2 ^ 64\<close>) stay canonical under
  the addition of a non-negative number below \<open>2 ^ 32\<close>: the result is the one string for the sum.\<close>

theorem bn_add_canonical:
  assumes "canon64 s" and "0 \<le> k" and "k < 2 ^ 32"
  shows "bn_add s (ji k) = addr_of (hexv s + nat k)"
  using assms by (rule bn_add_canon)

theorem bn_add_canonical_witness:
  "bn_add (addr_of 0xfffff000) (ji 0x1000) = addr_of 0x100000000"
  using bn_add_canonical [of "addr_of 0xfffff000" "0x1000"] by simp

text \<open>C3. Comparing canonical addresses compares the numbers: \<open>bn_cmp\<close> is negative exactly when the first
  is below the second and positive exactly when it is above. For equal addresses of more than six
  digits it is zero; for equal addresses of up to six digits it is \<open>NaN\<close>, not zero, because the second
  halves it subtracts are empty.\<close>

theorem bn_cmp_order:
  assumes "canon64 a" and "canon64 b"
  shows "(js_lt (bn_cmp a b) (ji 0) \<longleftrightarrow> hexv a < hexv b) \<and> (js_lt (ji 0) (bn_cmp a b) \<longleftrightarrow> hexv b < hexv a)
    \<and> (hexv a = hexv b \<longrightarrow> bn_cmp a b = (if length a \<le> 8 then NaN else ji 0))"
  using bn_cmp_canon [OF assms] canon64_inj [OF assms] bn_cmp_refl [OF canon64D [OF assms(1)]] by auto

theorem bn_cmp_order_witness:
  "js_lt (bn_cmp (addr_of 0xfff) (addr_of 0x7fff00000000)) (ji 0)"
  using bn_cmp_order [of "addr_of 0xfff" "addr_of 0x7fff00000000"] by simp

text \<open>C4. A canonical address is put together again from its rounded part and its remainder: for
  up to eight digits, \<open>bn_add (bn_round a n) (bn_mod a n)\<close> is \<open>a\<close>, character by character.\<close>

theorem bn_round_mod_roundtrip:
  assumes "canon64 a" and "1 \<le> n" and "n \<le> 8"
  shows "bn_add (bn_round a n) (bn_mod a n) = a"
proof -
  define v where "v = hexv a"
  have a: "a = addr_of v" "v < 2 ^ 64" using assms(1) by (simp_all add: canon64_def v_def)
  have m: "v mod 16 ^ n < 16 ^ n" by simp
  have "(16::nat) ^ n \<le> 16 ^ 8" using assms(3) by (intro power_increasing) auto
  then have "v mod 16 ^ n < 2 ^ 32" using less_le_trans [OF m] by simp
  moreover have "v div 16 ^ n * 16 ^ n < 2 ^ 64"
    using a(2) by (metis div_times_less_eq_dividend le_less_trans)
  ultimately have "bn_add (addr_of (v div 16 ^ n * 16 ^ n)) (ji (int (v mod 16 ^ n)))
      = addr_of (v div 16 ^ n * 16 ^ n + v mod 16 ^ n)"
    using bn_add_canon [of "addr_of (v div 16 ^ n * 16 ^ n)" "int (v mod 16 ^ n)"] by simp
  then show ?thesis
    using assms(2,3) a bn_mod_val [of "addr_of v" n] by (simp add: bn_round_addr_of div_mult_mod_eq)
qed

theorem bn_round_mod_roundtrip_witness:
  "bn_add (bn_round (addr_of 0x7fff12345678) 3) (bn_mod (addr_of 0x7fff12345678) 3) = addr_of 0x7fff12345678"
  using bn_round_mod_roundtrip [of "addr_of 0x7fff12345678" 3] by simp

text \<open>C5. Canonicalising drops leading zeros: the result is the canonical address of the same
  number, except that zero becomes the string \<open>0x\<close> without a digit.\<close>

theorem bn_canonicalize_normal:
  assumes "lower_digits 16 ds"
  shows "bn_canonicalize (''0x'' @ ds) = (if dval 16 ds = 0 then ''0x'' else addr_of (dval 16 ds))"
  using assms by (rule bn_canonicalize_val)

theorem bn_canonicalize_normal_witness:
  "bn_canonicalize ''0x00000000'' = ''0x''"
proof -
  have "lower_digits 16 ''00000000''" using lower_0 by (simp add: lower_digits_def)
  from bn_canonicalize_normal [OF this] show ?thesis by (simp add: dval_def digit_val_def)
qed

section \<open>The reactive engine\<close>

text \<open>C6. In every state that a sequence of events can reach (messages of the server, actions of the
  user, timers, scripts registering autoruns), no function is queued twice and so at most twenty
  are, at most one timer is armed, it is the one \<open>_pendTimeout\<close> names, it is armed whenever the queue is not empty, and no
  tracking is in progress.\<close>

theorem engine_invariant:
  assumes "reachable w"
  shows "minv w \<and> length (mpend w) \<le> 20 \<and> mtrack w = None"
  using reachable_live [OF assms] distinct_arun [of "mpend w"] by (simp add: live_def minv_def)

theorem engine_invariant_witness:
  "minv (fst (handle (E_control_clnum ''5'') w0)) \<and> length (mpend (fst (handle (E_control_clnum ''5'') w0))) \<le> 20
    \<and> mtrack (fst (handle (E_control_clnum ''5'') w0)) = None"
  by (rule engine_invariant, rule reachable.event, rule reachable.start, simp)

text \<open>C7. No queued function is forgotten: a function queued in a reachable state is still queued after
  any events but the timer, and exactly one timer is armed. When it fires and nothing throws, the
  outcome is that of running all queued functions once each in the order of the queue, and this
  function has run, without an exception, in the state those before it left. If a function throws,
  the outcome is the state it leaves when it is run after those before it.\<close>

theorem queue_served:
  assumes "reachable w" and "f \<in> set (mpend w)" and "loads_ok es w" and "no_timer es" and "v = run_events es w"
  shows "\<exists>t as bs. timers v = [t] \<and> mpend v = as @ f # bs
    \<and> (let s = v\<lparr>timers := [], mpend := []\<rparr>; (v', r) = handle (E_timer t) v in
       case r of
         None \<Rightarrow> v' = run_all client_body (mpend v) s \<and> snd (client_body f (run_all client_body as s)) = None
       | Some e \<Rightarrow> \<exists>cs g ds. mpend v = cs @ g # ds \<and> client_body g (run_all client_body cs s) = (v', Some e))"
proof -
  have l: "live v" "f \<in> set (mpend v)"
    using run_events_queue [OF reachable_live [OF assms(1)] assms(3,4)] assms(2,5) by auto
  then obtain as bs where q: "mpend v = as @ f # bs" by (meson split_list)
  with live_timers [OF l(1)] obtain t where t: "timers v = [t]" by auto
  let ?s = "v\<lparr>timers := [], mpend := []\<rparr>"
  have h: "handle (E_timer t) v = run_pending client_body (mpend v) ?s"
    using t by (simp add: fire_timer_def session_process_def)
  obtain v' r where r: "run_pending client_body (mpend v) ?s = (v', r)" by fastforce
  have "case r of None \<Rightarrow> v' = run_all client_body (mpend v) ?s \<and> snd (client_body f (run_all client_body as ?s)) = None
       | Some e \<Rightarrow> \<exists>cs g ds. mpend v = cs @ g # ds \<and> client_body g (run_all client_body cs ?s) = (v', Some e)"
  proof (cases r)
    case None
    with r run_pending_all [of client_body "mpend v" ?s] run_pending_prefix [of client_body as f bs ?s] q
    show ?thesis by simp
  next
    case (Some e)
    with r run_pending_thrown [of client_body "mpend v" ?s e] show ?thesis by simp
  qed
  then have "let s = ?s; (v', r) = handle (E_timer t) v in
       case r of
         None \<Rightarrow> v' = run_all client_body (mpend v) s \<and> snd (client_body f (run_all client_body as s)) = None
       | Some e \<Rightarrow> \<exists>cs g ds. mpend v = cs @ g # ds \<and> client_body g (run_all client_body cs s) = (v', Some e)"
    unfolding Let_def h r prod.case .
  with t q show ?thesis by blast
qed

theorem queue_served_witness:
  "\<exists>t. timers (run_events [E_setclnum (ji 0) (ji 5)] (run_events [E_autorun A_navigateiaddr, E_setiaddr (Some ''0x10'')] w0)) = [t]"
proof -
  define w1 where "w1 = fst (handle (E_autorun A_navigateiaddr) w0)"
  have r: "snd (deps_autorun client_body A_navigateiaddr w0) = None" and d: "mdeps w1 ''iaddr'' = [A_navigateiaddr]"
    "mtrack w1 = None" "mdeps w1 ''iview'' = []" "mdeps w1 ''dirtyiaddr'' = []" "mpend w1 = []"
    by (simp_all add: w1_def deps_autorun_def client_body_def autorun_navigateiaddr_def session_get_def emit_def add_dep_def)
  have 1: "reachable w1" unfolding w1_def using r by (intro reachable.event reachable.start) auto
  have 2: "reachable (fst (handle (E_setiaddr (Some ''0x10'')) w1))" using 1 by (rule reachable.event) simp
  have "A_navigateiaddr \<in> set (mpend (fst (handle (E_setiaddr (Some ''0x10'')) w1)))"
    using d by (simp add: on_setiaddr_def update_iaddr_def session_set_queue Let_def)
  from queue_served [OF 2 this _ _ refl, of "[E_setclnum (ji 0) (ji 5)]"] show ?thesis by (auto simp: w1_def no_timer_def)
qed

text \<open>C8. The engine comes to rest: from every reachable state, when no more events come from outside,
  the timer fires at most three times and then the queue is empty and no timer is armed, whether
  functions throw or not; on the way nothing of the selection changes but the fork, the change and
  the window of the system calls.\<close>

theorem engine_comes_to_rest:
  assumes "reachable w" and "w' = (fire_next ^^ 3) w"
  shows "mpend w' = [] \<and> timers w' = []
    \<and> (\<forall>k. k \<notin> {''forknum'', ''clnum'', ''sview''} \<longrightarrow> msession w' k = msession w k)"
  using rests_after_three [OF assms(1)] fire_next_keys assms(2) by (simp add: numeral_3_eq_3)

theorem engine_comes_to_rest_witness:
  "mpend ((fire_next ^^ 3) (run_events [E_autorun A_navigateiaddr, E_setiaddr (Some ''0x10'')] w0)) = []"
proof -
  have l: "loads_ok [E_autorun A_navigateiaddr, E_setiaddr (Some ''0x10'')] w0"
    by (simp add: deps_autorun_def client_body_def autorun_navigateiaddr_def session_get_def emit_def)
  from engine_comes_to_rest [OF run_events_reachable [OF reachable.start l] refl] show ?thesis by blast
qed

text \<open>C9. Setting a session key stores the value and queues exactly the functions that depend on the
  key behind those already queued, none twice; with a dependent function a timer is armed; no other
  key and nothing of the client's own state changes.\<close>

theorem session_set_schedules:
  fixes w :: world
  assumes "minv w"
  shows "msession (session_set k v w) = (msession w)(k := v)
    \<and> set (mpend (session_set k v w)) = set (mpend w) \<union> set (mdeps w k)
    \<and> distinct (mpend (session_set k v w))
    \<and> (\<exists>qs. mpend (session_set k v w) = mpend w @ qs)
    \<and> (mdeps w k \<noteq> [] \<longrightarrow> timers (session_set k v w) \<noteq> [])
    \<and> meteor.more (session_set k v w) = meteor.more w"
proof -
  have "minv (session_set k v w)" using assms by (rule session_set_minv)
  moreover have "mdeps w k \<noteq> [] \<Longrightarrow> timers (session_set k v w) \<noteq> []"
    by (simp add: session_set_def fold_pend_one_timers)
  ultimately show ?thesis by (simp add: session_set_queue session_set_prefix minv_def)
qed

theorem session_set_schedules_witness:
  "set (mpend (session_set ''clnum'' (Some (VNum (ji 7))) (w0\<lparr>mdeps := (\<lambda>k. if k = ''clnum'' then [A_change, A_sview] else [])\<rparr>)))
    = {A_change, A_sview}"
  using session_set_schedules [of "w0\<lparr>mdeps := (\<lambda>k. if k = ''clnum'' then [A_change, A_sview] else [])\<rparr>"
      "''clnum''" "Some (VNum (ji 7))"] by (simp add: minv_def)

text \<open>C10. No change of the selection is missed: whatever happened after a function was registered,
  setting a key to a value that changes what the function would ask the server for arms the timer,
  and when it fires (the selected fork being known, and no function throwing), the new requests of
  the function are sent.\<close>

theorem no_request_missed:
  assumes "reachable w" and "loads_ok (E_autorun f # es) w" and "w' = run_events (E_autorun f # es) w"
    and "u = session_set k v w'" and "requests (msession u) h f \<noteq> requests (msession w') h f"
  shows "\<exists>t. timers u = [t] \<and> (fork_valid (msession u) \<and> snd (handle (E_timer t) u) = None \<longrightarrow>
      (\<exists>before after. emits (fst (handle (E_timer t) u))
         = emits u @ before @ requests (msession u) (box_height u) f @ after))"
proof -
  have "msession u = (msession w')(k := v)" by (simp add: assms(4))
  then have "f \<in> set (mpend u) \<and> (\<exists>t. timers u = [t])"
    using change_queues [OF reachable_live [OF assms(1)] assms(2,3), of k v h] assms(4,5) by simp
  then show ?thesis using queued_requests [of f u] by auto
qed

theorem no_request_missed_witness:
  "\<exists>t. timers (session_set ''iaddr'' (Some (VStr ''0x10'')) (run_events [E_autorun A_navigateiaddr] w0)) = [t]"
proof -
  let ?w = "run_events [E_autorun A_navigateiaddr] w0"
  have l: "loads_ok [E_autorun A_navigateiaddr] w0" and s: "msession ?w ''iaddr'' = None"
    by (simp_all add: deps_autorun_def client_body_def autorun_navigateiaddr_def session_get_def emit_def)
  have "requests (msession (session_set ''iaddr'' (Some (VStr ''0x10'')) ?w)) h A_navigateiaddr
      \<noteq> requests (msession ?w) h A_navigateiaddr" for h
    using s by (simp add: requests_def)
  from no_request_missed [OF reachable.start l refl refl this] show ?thesis by blast
qed

text \<open>C11. An exception in a queued function ends the processing: the functions before it have run,
  the state is the one it leaves, and the functions after it are not run, though the queue was
  emptied.\<close>

theorem process_stops_at_error:
  assumes "snd (session_process client_body w) = Some e"
  shows "\<exists>before f after. mpend w = before @ f # after
    \<and> snd (run_pending client_body before (w\<lparr>mpend := []\<rparr>)) = None
    \<and> client_body f (fst (run_pending client_body before (w\<lparr>mpend := []\<rparr>))) = session_process client_body w"
  using run_pending_throw [OF assms [unfolded session_process_def]]
  by (metis assms prod.collapse session_process_def)

theorem process_stops_at_error_witness:
  "\<exists>before f after. mpend (w0\<lparr>mpend := [A_redraw_strace, A_sview], traces := [(''undefined'', [])]\<rparr>) = before @ f # after"
proof -
  let ?w = "w0\<lparr>mpend := [A_redraw_strace, A_sview], traces := [(''undefined'', [])]\<rparr>"
  have "snd (session_process client_body ?w) = Some (TypeError ''sview is undefined'')"
    by (simp add: session_process_def client_body_def autorun_redraw_strace_def redraw_strace_def)
  from process_stops_at_error [OF this] show ?thesis by blast
qed

section \<open>Navigation\<close>

text \<open>C12. Going back undoes a navigation: if the current history entry is the selection of \<open>w\<close>, the
  selection was changed and pushed, then \<open>history.back()\<close> restores the seven keys of the selection
  as they were, leaves every other key alone, and the entry before is current again.\<close>

theorem back_restores_selection:
  assumes "mtrack v = None" and "hist_cur v = Some (cur_json w)"
    and "stringify (Some (cur_json v)) \<noteq> stringify (hist_cur v)"
  shows "(\<forall>k. msession (history_back (push_history False v)) k
      = (if k \<in> set hist_keys then msession w k else msession v k))
    \<and> hist_cur (history_back (push_history False v)) = hist_cur v
    \<and> hist_back (history_back (push_history False v)) = hist_back v"
  using history_back_restores [OF assms] by blast

theorem back_restores_selection_witness:
  "msession (history_back (push_history False
     (w0\<lparr>msession := [''clnum'' \<mapsto> VNum (ji 5)], hist_cur := Some (cur_json w0)\<rparr>))) ''clnum'' = None"
proof -
  let ?v = "w0\<lparr>msession := [''clnum'' \<mapsto> VNum (ji 5)], hist_cur := Some (cur_json w0)\<rparr>"
  have "stringify (Some (cur_json ?v)) \<noteq> stringify (hist_cur ?v)"
    by (simp add: stringify_def cur_json_def hist_keys_def)
  from back_restores_selection [OF _ _ this, of w0] show ?thesis by (simp add: hist_keys_def)
qed

text \<open>C13. Selecting a data address of at least 0x20 scrolls the memory view to the row two rows above it:
  the view starts at the address rounded down to sixteen, less 32, and the address lies in the 512
  bytes that are shown. For the canonical addresses below 0x20 the start wraps around at \<open>2\<^sup>3\<^sup>2\<close>: the
  view starts at 0xffffffe0 or 0xfffffff0, and the selected address is not in it.\<close>

theorem update_dview_shows:
  assumes "mtrack w = None" and "addr64 a"
  shows "\<exists>d. snd (update_dview (Some a) w) = None
    \<and> msession (fst (update_dview (Some a) w)) = (msession w)(''daddr'' \<mapsto> VStr a, ''dview'' \<mapsto> VStr d)
    \<and> (0x20 \<le> hexv a \<longrightarrow> is_addr d \<and> hexv d = hexv a div 16 * 16 - 0x20
        \<and> hexv d \<le> hexv a \<and> hexv a < hexv d + 0x200)
    \<and> (canon64 a \<and> hexv a < 0x20 \<longrightarrow> d = addr_of (0xffffffe0 + hexv a div 16 * 16) \<and> hexv a < hexv d)"
proof -
  let ?d = "bn_add (bn_round a 1) (ji (- 0x20))"
  have "hexv a < hexv a div 16 * 16 + 16" by (metis add.commute div_mult_mod_eq mod_less_divisor nat_add_left_cancel_less zero_less_numeral)
  moreover have "hexv a div 16 * 16 \<le> hexv a" by simp
  ultimately show ?thesis
    using update_dview_session [OF assms(1), of a] row_above [OF assms(2)] row_above_low [of a]
    by (intro exI [of _ ?d]) auto
qed

theorem update_dview_shows_witness:
  "\<exists>d. msession (fst (update_dview (Some ''0x601038'') w0)) ''dview'' = Some (VStr d) \<and> hexv d = 0x601010"
  using update_dview_shows [of w0 "''0x601038''"] by (auto simp: addr_eval)

text \<open>C14. A new list of forks: the selected change follows the end of its fork exactly if it was at
  the old end, and a view that is undefined or starts at zero is zoomed out to all forks; every
  other key but \<open>max_clnum\<close> stays.\<close>

theorem update_maxclnum_follows:
  assumes "mtrack w = None" and "msession w ''forknum'' = Some fn"
    and "msession w ''clnum'' = Some (VNum c)"
    and "msession w ''max_clnum'' = Some (VForks olds)" and "map_of olds (prop_key (Some fn)) = Some (olo, ohi)"
    and "map_of news (prop_key (Some fn)) = Some (lo, hi)"
  shows "msession (update_maxclnum news w) = (msession w)
    (''max_clnum'' \<mapsto> VForks news, ''clnum'' \<mapsto> VNum (if js_eq ohi c then hi else c),
     ''cview'' := (case pair_of (msession w ''cview'') of
        None \<Rightarrow> Some (VPair (ji 0) (the (maxcl_loop news None)))
      | Some (c0, c1) \<Rightarrow> if js_eq c0 (ji 0) then Some (VPair (ji 0) (the (maxcl_loop news None)))
                       else Some (VPair c0 c1)))"
  using assms by (rule update_maxclnum_session)

theorem update_maxclnum_follows_witness:
  "msession (update_maxclnum [(''0'', ji 0, ji 20)] (w0\<lparr>msession := [''forknum'' \<mapsto> VNum (ji 0),
     ''clnum'' \<mapsto> VNum (ji 10), ''max_clnum'' \<mapsto> VForks [(''0'', ji 0, ji 10)]]\<rparr>)) ''clnum'' = Some (VNum (ji 20))"
proof -
  let ?w = "w0\<lparr>msession := [''forknum'' \<mapsto> VNum (ji 0),
     ''clnum'' \<mapsto> VNum (ji 10), ''max_clnum'' \<mapsto> VForks [(''0'', ji 0, ji 10)]]\<rparr>"
  have k: "prop_key (Some (VNum (ji 0))) = ''0''" by (simp add: int_to_string_def digits.simps)
  show ?thesis
    using update_maxclnum_follows [of ?w "VNum (ji 0)" "ji 10" "[(''0'', ji 0, ji 10)]" "ji 0" "ji 10" "[(''0'', ji 0, ji 20)]" "ji 0" "ji 20"] k
    by simp
qed

text \<open>C15. The requests follow the selection: when the timer of the queue fires in a reachable state
  whose selected fork is known, and no function throws, the messages sent are exactly those that
  the specification names for the selection, function by function in the order of the queue, and
  the selection does not change but for the window of the system calls.\<close>

theorem requests_follow_selection:
  assumes "reachable w" and "mpend w \<noteq> []" and "fork_valid (msession w)" and "timers w = [t]"
    and "snd (handle (E_timer t) w) = None"
  shows "emits (fst (handle (E_timer t) w)) = emits w @ concat (map (requests (msession w) (box_height w)) (mpend w))
    \<and> (\<forall>k. k \<noteq> ''sview'' \<longrightarrow> msession (fst (handle (E_timer t) w)) k = msession w k)"
  using timer_requests [OF assms(3), of t] assms(4,5) by simp

theorem requests_follow_selection_witness:
  "\<exists>t. emits (fst (handle (E_timer t) (run_events [E_autorun A_navigateiaddr, E_setiaddr (Some ''0x10'')] w0)))
    = [(''navigateiaddr'', [None]), (''navigateiaddr'', [Some (VStr ''0x10'')])]"
proof -
  define w1 where "w1 = fst (handle (E_autorun A_navigateiaddr) w0)"
  have r: "snd (deps_autorun client_body A_navigateiaddr w0) = None" and d: "mdeps w1 ''iaddr'' = [A_navigateiaddr]"
    "mtrack w1 = None" "mdeps w1 ''iview'' = []" "mdeps w1 ''dirtyiaddr'' = []" "mpend w1 = []" "timers w1 = []"
    "emits w1 = [(''navigateiaddr'', [None])]" "msession w1 = (\<lambda>_. None)" "mtimeout w1 = None"
    by (simp_all add: w1_def deps_autorun_def client_body_def autorun_navigateiaddr_def session_get_def emit_def add_dep_def)
  let ?w = "fst (handle (E_setiaddr (Some ''0x10'')) w1)"
  have "reachable w1" unfolding w1_def using r by (intro reachable.event reachable.start) auto
  then have 1: "reachable ?w" by (rule reachable.event) simp
  have 2: "mpend ?w = [A_navigateiaddr]" "emits ?w = [(''navigateiaddr'', [None])]"
    "msession ?w ''iaddr'' = Some (VStr ''0x10'')" "msession ?w ''max_clnum'' = None"
    using d by (simp_all add: on_setiaddr_def update_iaddr_def session_set_def pend_one_def clear_timeout_def
        set_timeout_def Let_def)
  then obtain t where t: "timers ?w = [t]" using reachable_live [OF 1] by (auto simp: live_def minv_def)
  have 3: "snd (handle (E_timer t) ?w) = None"
    using t 2(1) by (simp add: fire_timer_def session_process_def client_body_def autorun_navigateiaddr_def split_beta)
  have "fork_valid (msession ?w)" using 2(4) by (simp add: fork_valid_def)
  from requests_follow_selection [OF 1 _ this t 3] 2
  have "emits (fst (handle (E_timer t) ?w)) = [(''navigateiaddr'', [None]), (''navigateiaddr'', [Some (VStr ''0x10'')])]"
    by (simp add: requests_def)
  then show ?thesis by (intro exI [of _ t]) (simp only: run_events.simps w1_def)
qed

section \<open>The timeline\<close>

text \<open>C16. The answer to a request for changes replaces the flags of its type: afterwards a point has
  as many flags of that type as the message lists it, every other type except the recomputed zoom
  marks is as before, and the table is well formed.\<close>

theorem on_changes_replaces_flags:
  assumes "finv (flags w)"
  shows "finv (flags (fst (on_changes mtype cls w)))
    \<and> (\<forall>u q. u \<noteq> ''zoom'' \<longrightarrow> count_list (types_at (flags (fst (on_changes mtype cls w))) q) u
        = (if u = change_type mtype then count_list (message_keys cls) q else count_list (types_at (flags w) q) u))"
  using on_changes_flags [OF assms] by blast

theorem on_changes_replaces_flags_witness:
  "count_list (types_at (flags (fst (on_changes ''S'' [(''0'', [ji 3])] (w0\<lparr>flags := [(''0,7'', [''daddrw'', ''change''])]\<rparr>)))) ''0,7'') ''daddrw'' = 0"
  using on_changes_replaces_flags [of "w0\<lparr>flags := [(''0,7'', [''daddrw'', ''change''])]\<rparr>" "''S''" "[(''0'', [ji 3])]"]
  by (simp add: finv_def change_type_def change_types_def message_keys_def flag_key_def int_to_string_def digits.simps)

text \<open>C17. There is one flag for the current change, at the selected fork and change; the other
  flags, zoom marks aside, stay.\<close>

theorem current_change_flag:
  assumes "finv (flags w)"
  shows "\<forall>u q. u \<noteq> ''zoom'' \<longrightarrow> count_list (types_at (flags (fst (autorun_change w))) q) u
      = (if u = ''change''
         then (if q = flag_key (elem_key (msession w ''forknum'')) (elem_key (msession w ''clnum'')) then 1 else 0)
         else count_list (types_at (flags w) q) u)"
  using autorun_change_flags [OF assms refl] by blast

theorem current_change_flag_witness:
  "count_list (types_at (flags (fst (autorun_change (w0\<lparr>flags := [(''0,7'', [''change''])],
      msession := [''forknum'' \<mapsto> VNum (ji 0), ''clnum'' \<mapsto> VNum (ji 8)]\<rparr>)))) ''0,8'') ''change'' = 1"
  using current_change_flag [of "w0\<lparr>flags := [(''0,7'', [''change''])],
      msession := [''forknum'' \<mapsto> VNum (ji 0), ''clnum'' \<mapsto> VNum (ji 8)]\<rparr>"]
  by (simp add: finv_def elem_key_def flag_key_def int_to_string_def digits.simps)

text \<open>C18. Redrawing keeps the flags: whatever the view, no flag but the zoom marks is lost, added or
  moved, and the table stays well formed.\<close>

theorem redraw_keeps_flags:
  assumes "finv (flags w)"
  shows "finv (flags (fst (redraw_flags w)))
    \<and> (\<forall>k t. t \<noteq> ''zoom'' \<longrightarrow> count_list (types_at (flags (fst (redraw_flags w))) k) t = count_list (types_at (flags w) k) t)"
  using redraw_flags_keeps [OF assms] by (simp add: keeps_def)

theorem redraw_keeps_flags_witness:
  "count_list (types_at (flags (fst (redraw_flags (w0\<lparr>flags := [(''0,7'', [''change''])]\<rparr>)))) ''0,7'') ''change'' = 1"
  using redraw_keeps_flags [of "w0\<lparr>flags := [(''0,7'', [''change''])]\<rparr>"]
  by (simp add: finv_def types_at_def)

text \<open>C19. Going to the next (previous) flag selects the smallest flagged change above (the largest
  below) the current one among the flags of the wanted kind in the current fork, or stays if there
  is none; no other key changes.\<close>

theorem go_to_flag_neighbour:
  assumes "mtrack w = None" and "int_keys (flags w)"
    and "msession w ''clnum'' = Some (VNum (ji g))" and "\<bar>g\<bar> < 2 ^ 52"
    and "msession w ''forknum'' = Some (VNum f)"
    and "S = flagged data f (flags w)"
  shows "msession (go_to_flag next data w) = (msession w)(''clnum'' \<mapsto> VNum (ji
    (if next then (if {c \<in> S. g < c} = {} then g else Min {c \<in> S. g < c})
     else (if {c \<in> S. c < g} = {} then g else Max {c \<in> S. c < g}))))"
  using assms by (rule go_to_flag_session)

theorem go_to_flag_neighbour_witness:
  "msession (go_to_flag True False (w0\<lparr>flags := [(''0,9'', [''ciaddr'']), (''0,7'', [''daddrw''])],
     msession := [''forknum'' \<mapsto> VNum (ji 0), ''clnum'' \<mapsto> VNum (ji 5)]\<rparr>)) ''clnum'' = Some (VNum (ji 9))"
proof -
  let ?w = "w0\<lparr>flags := [(''0,9'', [''ciaddr'']), (''0,7'', [''daddrw''])],
     msession := [''forknum'' \<mapsto> VNum (ji 0), ''clnum'' \<mapsto> VNum (ji 5)]\<rparr>"
  have k: "flag_key (int_to_string 10 0) (int_to_string 10 9) = ''0,9''" "flag_key (int_to_string 10 0) (int_to_string 10 7) = ''0,7''"
    by (simp_all add: flag_key_def int_to_string_def digits.simps)
  have p: "flag_fork ''0,9'' = ji 0" "flag_clnum ''0,9'' = ji 9" "flag_fork ''0,7'' = ji 0" "flag_clnum ''0,7'' = ji 7"
    using flag_key_parse [of 0 9] flag_key_parse [of 0 7] unfolding k by (simp_all add: safe_def)
  have i: "int_keys (flags ?w)"
    using exI [of "\<lambda>c. flag_key (int_to_string 10 0) (int_to_string 10 c) = ''0,9'' \<and> \<bar>c\<bar> < 2 ^ 52" 9]
      exI [of "\<lambda>c. flag_key (int_to_string 10 0) (int_to_string 10 c) = ''0,7'' \<and> \<bar>c\<bar> < 2 ^ 52" 7] k
    by (auto simp: int_keys_def) (metis abs_zero zero_less_numeral)+
  have "flagged False (ji 0) [] = {}" by (simp add: flagged_def)
  then have "flagged False (ji 0) (flags ?w) = {9}" by (simp add: flagged_Cons p flag_matches_def)
  then have "msession (go_to_flag True False ?w) = (msession ?w)(''clnum'' \<mapsto> VNum (ji
     (if True then (if {c \<in> {9::int}. 5 < c} = {} then 5 else Min {c \<in> {9}. 5 < c})
      else (if {c \<in> {9::int}. c < 5} = {} then 5 else Max {c \<in> {9}. c < 5}))))"
    by (intro go_to_flag_neighbour [OF _ i, where f = "ji 0"] sym [of _ "{9}"]) simp_all
  moreover have "{c \<in> {9::int}. 5 < c} = {9}" by auto
  ultimately show ?thesis by (simp only: if_True) simp
qed

text \<open>C20. When an instruction address was chosen outside the trace view, the answer with its
  executions moves the selection to an execution of the current fork that is closest to the current
  change, and clears the mark.\<close>

theorem selects_closest_execution:
  assumes "mtrack w = None" and "msession w ''dirtyiaddr'' = Some (VBool True)"
    and "msession w ''clnum'' = Some (VNum (ji g))" and "\<bar>g\<bar> < 2 ^ 52"
    and "map_of cls (prop_key (msession w ''forknum'')) = Some (map ji cs)" and "cs \<noteq> []" and "g \<notin> set cs"
    and "\<forall>x \<in> set cs. \<bar>x\<bar> < 2 ^ 52"
  shows "\<exists>c \<in> set cs. (\<forall>d \<in> set cs. \<bar>c - g\<bar> \<le> \<bar>d - g\<bar>)
    \<and> msession (fst (on_changes ''I'' cls w)) = (msession w)(''clnum'' \<mapsto> VNum (ji c), ''dirtyiaddr'' \<mapsto> VBool False)"
  using assms by (rule on_changes_closest)

theorem selects_closest_execution_witness:
  "msession (fst (on_changes ''I'' [(''0'', [ji 1, ji 8])] (w0\<lparr>msession := [''forknum'' \<mapsto> VNum (ji 0),
     ''clnum'' \<mapsto> VNum (ji 6), ''dirtyiaddr'' \<mapsto> VBool True]\<rparr>))) ''clnum'' = Some (VNum (ji 8))"
proof -
  have k: "int_to_string 10 0 = ''0''" by (simp add: int_to_string_def digits.simps)
  show ?thesis
    using selects_closest_execution [of "w0\<lparr>msession := [''forknum'' \<mapsto> VNum (ji 0),
     ''clnum'' \<mapsto> VNum (ji 6), ''dirtyiaddr'' \<mapsto> VBool True]\<rparr>" 6 "[(''0'', [ji 1, ji 8])]" "[1, 8]"] by (auto simp: k)
qed

text \<open>C21. Scrolling the timeline keeps the view inside the trace: from a view within \<open>0\<close> and the last
  change it stays there, keeps its width, and moves in the direction of the wheel.\<close>

theorem wheel_keeps_view_in_range:
  assumes "mtrack w = None"
    and "msession w ''max_clnum'' = Some (VForks fs)" and "maxcl_loop fs None = Some (ji m)"
    and "msession w ''cview'' = Some (VPair (ji a) (ji b))" and "0 \<le> a" and "a \<le> b" and "b \<le> m" and "m < 2 ^ 32"
    and "box_height w = Some (ji h)" and "100 < h" and "h < 2 ^ 32"
  shows "\<exists>a' b'. msession (vtimelinebox_mousewheel d w) = (msession w)(''cview'' \<mapsto> VPair (ji a') (ji b'))
    \<and> 0 \<le> a' \<and> b' \<le> m \<and> b' - a' = b - a
    \<and> (if js_lt (ji 0) d then a' \<le> a else a \<le> a')"
  using assms by (rule mousewheel_view)

theorem wheel_keeps_view_in_range_witness:
  "\<exists>a' b'. msession (vtimelinebox_mousewheel (ji 120) (w0\<lparr>msession := [''cview'' \<mapsto> VPair (ji 10) (ji 30),
      ''max_clnum'' \<mapsto> VForks [(''0'', ji 0, ji 100)]], box_height := Some (ji 600)\<rparr>)) ''cview''
    = Some (VPair (ji a') (ji b')) \<and> 0 \<le> a' \<and> b' \<le> 100 \<and> b' - a' = 20"
  using wheel_keeps_view_in_range [of "w0\<lparr>msession := [''cview'' \<mapsto> VPair (ji 10) (ji 30),
      ''max_clnum'' \<mapsto> VForks [(''0'', ji 0, ji 100)]], box_height := Some (ji 600)\<rparr>" "[(''0'', ji 0, ji 100)]" 100 10 30 600 "ji 120"]
  by auto

text \<open>C22. Dragging over the timeline zooms to the changes under the two ends, in order, whichever way
  the mouse went; the changes are those at the heights of the mouse in the view, within the view,
  and off by no more than the rounding to an integer. A drag that stays on one change is a click,
  which selects it and the fork of the timeline, unless it is beside the timelines. No other key
  changes.\<close>

theorem drag_zooms:
  assumes "mtrack w = None"
    and "msession w ''max_clnum'' = Some (VForks fs)" and "maxcl_loop fs None = Some (ji m)"
    and "msession w ''cview'' = Some (VPair (ji a) (ji b))" and "0 \<le> a" and "a \<le> b" and "b \<le> m" and "m < 2 ^ 32"
    and "box_height w = Some (ji h)" and "100 < h" and "h < 2 ^ 32"
    and "timeline_target w t" and "timeline_target w t'"
    and "0 \<le> y" and "y \<le> h - 100" and "0 \<le> y'" and "y' \<le> h - 100"
  shows "\<exists>c c'. at_cursor a b h y c \<and> at_cursor a b h y' c'
    \<and> msession (vtimelinebox_mouseup t' 0 (ji y') (vtimelinebox_mousedown t 0 (ji y) w)) =
      (if c \<noteq> c' then (msession w)(''cview'' \<mapsto> VPair (ji (min c c')) (ji (max c c')))
       else if js_eq (get_forknum t') (ji (- 1)) then msession w
       else (msession w)(''clnum'' \<mapsto> VNum (ji c), ''forknum'' \<mapsto> VNum (get_forknum t')))"
  using assms by (rule drag_timeline)

theorem drag_zooms_witness:
  "msession (vtimelinebox_mouseup ''vtimelinebox'' 0 (ji 100) (vtimelinebox_mousedown ''vtimelinebox'' 0 (ji 400)
      (w0\<lparr>msession := [''cview'' \<mapsto> VPair (ji 0) (ji 1000), ''max_clnum'' \<mapsto> VForks [(''0'', ji 0, ji 1000)]],
        box_height := Some (ji 600)\<rparr>))) ''cview'' = Some (VPair (ji 200) (ji 800))"
proof -
  have c: "at_cursor 0 1000 600 y c \<Longrightarrow> y = 100 \<or> y = 400 \<Longrightarrow> c = 2 * y" for y c
  proof -
    assume c: "at_cursor 0 1000 600 y c" "y = 100 \<or> y = 400"
    then have "\<bar>rat_of_int c - of_int (2 * y)\<bar> \<le> 501 / 1000" by (auto simp: at_cursor_def)
    then have "rat_of_int c < of_int (2 * y + 1)" "rat_of_int (2 * y - 1) < of_int c" unfolding of_int_add of_int_diff of_int_1 by linarith+
    then show "c = 2 * y" unfolding of_int_less_iff by linarith
  qed
  from drag_zooms [of "w0\<lparr>msession := [''cview'' \<mapsto> VPair (ji 0) (ji 1000), ''max_clnum'' \<mapsto> VForks [(''0'', ji 0, ji 1000)]],
      box_height := Some (ji 600)\<rparr>" "[(''0'', ji 0, ji 1000)]" 1000 0 1000 600 "''vtimelinebox''" "''vtimelinebox''" 400 100]
  show ?thesis by (auto simp: timeline_target_def dest!: c)
qed

text \<open>C23. In every state that a sequence of events can reach, the table of flags is well formed (no
  point twice, no point without a flag) and at most one point is marked as the current change,
  once.\<close>

theorem flags_invariant:
  assumes "reachable w"
  shows "finv (flags w) \<and> (\<exists>p. \<forall>k. count_list (types_at (flags w) k) ''change'' = (if p = Some k then 1 else 0))"
  using reachable_flags_ok [OF assms] by (simp add: flags_ok_def)

theorem flags_invariant_witness:
  "finv (flags (fst (handle (E_autorun A_change) w0)))
    \<and> types_at (flags (fst (handle (E_autorun A_change) w0))) '','' = [''change'']"
proof -
  let ?w = "fst (handle (E_autorun A_change) w0)"
  have f: "snd (handle (E_autorun A_change) w0) = None" "types_at (flags ?w) '','' = [''change'']"
    by (simp_all add: deps_autorun_def client_body_def autorun_change_def redraw_flags_def session_get_def Let_def
        elem_key_def add_flag_def flag_key_def types_at_def)
  have "reachable ?w" by (rule reachable.event, rule reachable.start) (use f in auto)
  from flags_invariant [OF this] f(2) show ?thesis by blast
qed

section \<open>Text and markup\<close>

text \<open>C24. Instructions and system calls are shown as they are, and cannot inject markup: once the
  memory map is known, and with at most eighty registers with plain names, highlighting a text never
  fails; the text outside of the tags it adds is the escaped text (for an instruction, when its
  opcode contains no register name and no address); and the escaped text contains no angle bracket
  and no double quote, and decoding its entities gives the text back.\<close>

theorem highlighting_shows_text:
  assumes "plain_pmaps w" and "instruction \<longrightarrow> plain_arch w"
  shows "(\<exists>r w'. highlight_instruction (Some str) instruction w = (Inr r, w')
      \<and> ((instruction \<longrightarrow> plain_opcode w str) \<longrightarrow> strip_tags False r = escapeHTML str))
    \<and> {CHR ''<'', CHR ''>'', CHR 0x22} \<inter> set (escapeHTML str) = {} \<and> unescape (escapeHTML str) = str"
  using highlight_instruction_text [of w instruction str] assms escapeHTML_safe [of str] unescape_escapeHTML
  by (auto simp: no_markup_def)

theorem highlighting_shows_text_witness:
  "\<exists>r w'. highlight_instruction (Some ''mov [EAX], 0x8048000'') True (w0\<lparr>arch := Some ([Some ''EAX''], ji 4), msession := [''pmaps'' \<mapsto> VPmaps [(''0x8048000'', ''memory'')]]\<rparr>) = (Inr r, w')
    \<and> strip_tags False r = ''mov [EAX], 0x8048000''"
proof -
  let ?w = "w0\<lparr>arch := Some ([Some ''EAX''], ji 4), msession := [''pmaps'' \<mapsto> VPmaps [(''0x8048000'', ''memory'')]]\<rparr>"
  have p: "plain_pmaps ?w" "plain_arch ?w" by (simp_all add: plain_pmaps_def plain_arch_def regcolors_length)
  have e: "escapeHTML ''mov [EAX], 0x8048000'' = ''mov [EAX], 0x8048000''" by code_simp
  have "map to_lower ''EAX'' = ''eax''" by code_simp
  then have keys: "reg_reps (Suc 0) [Some ''EAX''] (ji 4) [] = Inr [(''EAX'', reg_rep 0 (ji 4) ''EAX''), (''eax'', reg_rep 0 (ji 4) ''eax'')]"
    by (simp add: regcolors_length del: list.map)
  have "list_all isl (take (Suc (length (op_word ''mov [EAX], 0x8048000''))) (re_tokens [''EAX'', ''eax''] ''mov [EAX], 0x8048000''))"
    by code_simp
  with keys e have "plain_opcode ?w ''mov [EAX], 0x8048000''" by (simp add: plain_opcode_def)
  with highlighting_shows_text [of ?w True "''mov [EAX], 0x8048000''"] p e show ?thesis by simp
qed

section \<open>The memory server\<close>

text \<open>C25. The binary search over a sorted history is equivalent to its specification: the value of the
  last entry not above the wanted change, of the history sorted by change number, and nothing for
  an address without a history or with no entry that early.\<close>

theorem memdb_lookup_spec:
  "map_getbelow (map_of (map_create dic) k) a =
    (case map_of dic k of None \<Rightarrow> None | Some h \<Rightarrow> last_below (sort_key fst h) a)"
  by (rule map_getbelow_created)

text \<open>C26. The server answers from the file it has read: a memory request gets the values at that change
  of exactly the addresses in the range that have one, a register request one entry, with its name
  and its address (four times its index), for each of the nine registers that has a value.\<close>

theorem server_answers:
  "((j, v) \<in> set (on_getmemory (fst (read_done (Read_tables r m) db)) address len clnum) \<longleftrightarrow>
       address \<le> j \<and> j < address + len \<and> (\<exists>h. map_of m j = Some h \<and> last_below (sort_key fst h) clnum = Some v))
   \<and> (x \<in> set (on_getregisters (fst (read_done (Read_tables r m) db)) clnum) \<longleftrightarrow>
       (\<exists>k h v. k < length X86REGS \<and> x = \<lparr>rv_name = X86REGS ! k, rv_address = int k * 4, rv_value = v\<rparr>
          \<and> map_of r (int k * 4) = Some h \<and> last_below (sort_key fst h) clnum = Some v))"
  by (intro conjI getmemory_answer getregisters_answer)

text \<open>C27. The server follows the file, whatever the order in which changes, timers and the ends of the
  asynchronous reads come: memory is always answered from the tables of the read that ended last
  (nothing before the first); at most one timer is armed, however many changes came; and from every
  such state a change arms exactly one timer, which, when it fires, leaves no timer and begins one
  new read, which can end with any tables - that are, by the first part, the ones answered from then.
  Reads can overlap, and then the last to end wins, not the last to begin.\<close>

theorem server_follows_file:
  assumes "srv_ok es server_start" and "s = srv_run es server_start"
  shows "(\<forall>address len clnum. set (on_getmemory (srv_db s) address len clnum)
      = (case last_tables es None of None \<Rightarrow> {}
         | Some (r, m) \<Rightarrow> {(j, v). address \<le> j \<and> j < address + len
             \<and> (\<exists>h. map_of m j = Some h \<and> last_below (sort_key fst h) clnum = Some v)}))
    \<and> length (srv_timers s) \<le> 1
    \<and> (\<exists>t i. srv_timers (srv_run (es @ [Changed]) server_start) = [t]
        \<and> srv_timers (srv_run (es @ [Changed, Timer_fires t]) server_start) = []
        \<and> srv_reads (srv_run (es @ [Changed, Timer_fires t]) server_start) = srv_reads s @ [i]
        \<and> (\<forall>r m. srv_ok (es @ [Changed, Timer_fires t, Read_returns i (Read_tables r m)]) server_start))"
proof -
  have "srv_db s = db_of (last_tables es None)"
    unfolding assms(2) by (rule srv_run_db [OF assms(1)]) (simp add: server_start_def read_memdb_def db_of_def)
  moreover have d: "debounced s" unfolding assms(2) by (rule debounced_run) (simp_all add: assms(1))
  then have "length (srv_timers s) \<le> 1" by (auto simp: debounced_def)
  ultimately show ?thesis using server_follows [OF d] assms by (simp add: getmemory_db_of)
qed

theorem server_follows_file_witness:
  "set (on_getmemory (srv_db (srv_run [Changed, Read_returns 0 (Read_tables [] [(8, [(3, ''a''), (1, ''b'')])])] server_start)) 0 16 2) = {(8, ''b'')}"
proof -
  let ?es = "[Changed, Read_returns 0 (Read_tables [] [(8, [(3, ''a''), (1, ''b'')])])]"
  have "srv_ok ?es server_start" by (simp add: server_start_def watch_tripped_def read_memdb_def read_returns_def)
  note m = conjunct1 [OF server_follows_file [OF this refl], rule_format, of 0 16 2]
  have "last_below (sort_key fst [(3, ''a''), (1, ''b'')]) 2 = Some ''b''" by (simp add: last_below_def)
  then have "{(j, v). 0 \<le> j \<and> j < 16 \<and> (\<exists>h. map_of [(8, [(3, ''a''), (1, ''b'')])] j = Some h \<and> last_below (sort_key fst h) 2 = Some v)}
    = {(8 :: int, ''b'')}" by (auto split: if_splits)
  with m show ?thesis by simp
qed

section \<open>The list of system calls\<close>

text \<open>C28. When the fork or the change is selected, let \<open>i\<close> be the number of calls before the first one above
  the selected change (in a trace sorted by change number: the calls not above it). The window of the
  system calls starts three calls before \<open>i\<close>, or earlier so as not to pass the end of the trace, but
  not below zero, and has ten entries: so it does not pass the end of a trace of at least ten calls,
  and shows the last call not above the selected change, if there is one. Nothing else changes.\<close>

theorem strace_window_follows:
  assumes "mtrack w = None" and "map_of (traces w) (prop_key (msession w ''forknum'')) = Some t"
    and "c = num_of (msession w ''clnum'')"
  shows "\<exists>i mn. i \<le> length t \<and> (\<forall>j < i. \<not> js_lt c (sc_clnum (t ! j))) \<and> (i < length t \<longrightarrow> js_lt c (sc_clnum (t ! i)))
    \<and> (\<forall>ks k. map sc_clnum t = map ji ks \<and> sorted ks \<and> (\<forall>k \<in> set ks. safe k) \<and> c = ji k \<and> safe k
        \<longrightarrow> (\<forall>j < length t. j < i \<longleftrightarrow> ks ! j \<le> k))
    \<and> mn = max 0 (min (int i - 3) (int (length t) - 10))
    \<and> snd (autorun_sview w) = None
    \<and> msession (fst (autorun_sview w)) = (msession w)(''sview'' \<mapsto> VPair (ji mn) (ji (mn + 10)))
    \<and> mn + 10 \<le> max 10 (int (length t)) \<and> (0 < i \<longrightarrow> mn \<le> int i - 1 \<and> int i - 1 < mn + 10)"
proof -
  define i where "i = first_above c t"
  let ?mn = "max 0 (min (int i - 3) (int (length t) - 10))"
  have le: "i \<le> length t" by (simp add: i_def first_above_le)
  have s: "autorun_sview w = (session_set ''sview'' (Some (VPair (ji ?mn) (ji (?mn + 10)))) w, None)"
    using autorun_sview_session [OF assms(1,2)] assms(3) by (auto simp: i_def sview_window_eq)
  have 1: "\<forall>j < i. \<not> js_lt c (sc_clnum (t ! j))" "i < length t \<longrightarrow> js_lt c (sc_clnum (t ! i))"
    using first_above_before [of _ c t] first_above_at [of c t] by (auto simp: i_def)
  have 2: "\<forall>ks k. map sc_clnum t = map ji ks \<and> sorted ks \<and> (\<forall>k \<in> set ks. safe k) \<and> c = ji k \<and> safe k
      \<longrightarrow> (\<forall>j < length t. j < i \<longleftrightarrow> ks ! j \<le> k)"
    unfolding i_def using first_above_sorted by blast
  have 3: "?mn + 10 \<le> max 10 (int (length t))" "0 < i \<longrightarrow> ?mn \<le> int i - 1 \<and> int i - 1 < ?mn + 10"
    using le by auto
  show ?thesis
    unfolding s by (intro exI [of _ i] exI [of _ ?mn] conjI) (use le 1 2 3 in simp_all)
qed

theorem strace_window_follows_witness:
  "\<exists>mn. msession (fst (autorun_sview (w0\<lparr>traces := [(''undefined'', [\<lparr>sc_clnum = ji 3, sc_sc = ''exit()''\<rparr>])]\<rparr>))) ''sview''
    = Some (VPair (ji mn) (ji (mn + 10)))"
  using strace_window_follows [of "w0\<lparr>traces := [(''undefined'', [\<lparr>sc_clnum = ji 3, sc_sc = ''exit()''\<rparr>])]\<rparr>" "[\<lparr>sc_clnum = ji 3, sc_sc = ''exit()''\<rparr>]", OF _ _ refl]
  by auto

text \<open>C29. Scrolling the system calls never fails, keeps the width of the window and keeps it between
  zero and the end of the trace; it moves by one entry when there is room.\<close>

theorem strace_wheel_in_range:
  assumes "mtrack w = None" and "map_of (traces w) (prop_key (msession w ''forknum'')) = Some t"
    and "msession w ''sview'' = Some (VPair (ji a) (ji b))" and "0 \<le> a" and "a \<le> b" and "b < 2 ^ 52"
  shows "snd (strace_mousewheel d w) = None \<and>
   (\<exists>a' b'. msession (fst (strace_mousewheel d w)) ''sview'' = Some (VPair (ji a') (ji b'))
    \<and> b' - a' = b - a \<and> 0 \<le> a' \<and> b' \<le> max b (int (length t))
    \<and> (js_lt d (ji 0) \<and> b < int (length t) \<longrightarrow> a' = a + 1) \<and> (js_lt (ji 0) d \<and> 0 < a \<longrightarrow> a' = a - 1))"
  using assms by (rule strace_mousewheel_session)

theorem strace_wheel_in_range_witness:
  "snd (strace_mousewheel (ji 120) (w0\<lparr>traces := [(''undefined'', [])], msession := [''sview'' \<mapsto> VPair (ji 1) (ji 11)]\<rparr>)) = None"
  using strace_wheel_in_range [of "w0\<lparr>traces := [(''undefined'', [])], msession := [''sview'' \<mapsto> VPair (ji 1) (ji 11)]\<rparr>" "[]" 1 11 "ji 120"]
  by simp

section \<open>The line of pages\<close>

text \<open>C30. The loops that group the pages end on the pages of a memory map, and the result is right:
  every page that is not read-only appears, each group is a gapless run of pages, in order, and two
  groups are at least eight pages apart.\<close>

theorem page_groups:
  assumes "good_pmaps pmaps"
  shows "\<exists>ps. pchunks_loop bn_add bn_cmp (page_addrs pmaps) = Some ps
    \<and> {k. \<exists>v. (k, v) \<in> set pmaps \<and> v \<noteq> ''romemory''} \<subseteq> set (concat ps)
    \<and> (\<forall>c \<in> set ps. c \<noteq> [] \<and> map hexv c = pages (hexv (hd c)) (hexv (last c) + PAGE_SIZE))
    \<and> sorted_wrt (\<lambda>c d. hexv (last c) + 8 * PAGE_SIZE \<le> hexv (hd d)) ps"
  using assms by (rule pchunks_of_pmaps)

theorem page_groups_witness:
  "\<exists>ps. pchunks_loop bn_add bn_cmp (page_addrs [(addr_of 0x8048000, ''memory''), (addr_of 0x804a000, ''instruction'')]) = Some ps"
proof -
  have "hexv (addr_of 0x8048000) \<noteq> hexv (addr_of 0x804a000)" by simp
  then have ne: "addr_of 0x8048000 \<noteq> addr_of 0x804a000" by metis
  have "good_pmaps [(addr_of 0x8048000, ''memory''), (addr_of 0x804a000, ''instruction'')]"
    using ne by (simp add: good_pmaps_def)
  from page_groups [OF this] show ?thesis by blast
qed

text \<open>C31. The flag of an address is drawn on its page, if that page is shown, at the share of the
  fifteen pixels that its offset has of the page, so between half a pixel before the page and the
  same before its end; an older flag of the same name is gone.\<close>

theorem hflag_on_page:
  assumes "is_addr addr" and "bn_round addr 3 \<in> fst ` set (concat (pchunk_dom w))"
  shows "\<exists>x. filter (\<lambda>h. hf_name h = name) (hflags (draw_hflag addr name color ontop w))
      = [\<lparr>hf_name = name, hf_chunk = bn_round addr 3, hf_ontop = ontop, hf_color = color, hf_left = Fin x\<rparr>]
    \<and> x = of_nat (hexv addr mod PAGE_SIZE) * 15 / of_nat PAGE_SIZE - 1 / 2 \<and> - 1 / 2 \<le> x \<and> x < 15 - 1 / 2"
proof -
  let ?x = "of_nat (hexv addr mod PAGE_SIZE) * 15 / of_nat PAGE_SIZE - 1 / 2 :: rat"
  have "filter (\<lambda>h. hf_name h = name) (hflags (draw_hflag addr name color ontop w))
      = [\<lparr>hf_name = name, hf_chunk = bn_round addr 3, hf_ontop = ontop, hf_color = color, hf_left = Fin ?x\<rparr>]"
    using assms(2) hflag_offset [OF assms(1)] by (simp add: draw_hflag_def Let_def del: set_concat)
  moreover have "hexv addr mod PAGE_SIZE < PAGE_SIZE" by simp
  then have "(of_nat (hexv addr mod PAGE_SIZE) :: rat) < of_nat PAGE_SIZE" by (simp only: of_nat_less_iff)
  then have "- 1 / 2 \<le> ?x \<and> ?x < 15 - 1 / 2" by simp
  ultimately show ?thesis by blast
qed

theorem hflag_on_page_witness:
  "\<exists>x. filter (\<lambda>h. hf_name h = ''iaddr'') (hflags (draw_hflag ''0x8048800'' ''iaddr'' ''#AA0000'' True
      (w0\<lparr>pchunk_dom := [[(''0x8048000'', ''pchunk pchunkinstruction'')]]\<rparr>)))
    = [\<lparr>hf_name = ''iaddr'', hf_chunk = ''0x8048000'', hf_ontop = True, hf_color = ''#AA0000'', hf_left = Fin x\<rparr>] \<and> x < 15"
proof -
  have "bn_round ''0x8048800'' 3 = ''0x8048000''" by (simp add: bn_round_def js_substring_def numeral_3_eq_3)
  with hflag_on_page [of "''0x8048800''" "w0\<lparr>pchunk_dom := [[(''0x8048000'', ''pchunk pchunkinstruction'')]]\<rparr>" "''iaddr''" "''#AA0000''" True]
  show ?thesis by (fastforce simp: addr_eval)
qed

text \<open>C32. A click on a page selects the address at that share of the page: at pixel \<open>n\<close> of a page
  \<open>wd\<close> pixels wide, exactly \<open>n * 4096 div wd\<close> bytes into it, on that page, though the script
  computes with rounded fractions; the left button selects it as the data address, the right one as
  the instruction address, marked as chosen outside the trace.\<close>

theorem page_click_selects:
  assumes "find pe_pchunk tt = Some e" and "pe_id e = ''pchunk_'' @ addr_of v" and "pe_left e = ji l" and "pe_width e = ji wd"
    and "l \<le> pX" and "pX < l + wd" and "wd < 2 ^ 30" and "v < 2 ^ 64" and "v mod 4096 = 0" and "mtrack w = None"
  shows "\<exists>off < 4096. off = nat ((pX - l) * 4096 div wd) \<and> bn_round (addr_of (v + off)) 3 = addr_of v
    \<and> msession (fst (haddrline_click tt (ji pX) w)) ''daddr'' = Some (VStr (addr_of (v + off)))
    \<and> msession (haddrline_contextmenu tt (ji pX) w)
      = (msession w)(''dirtyiaddr'' \<mapsto> VBool True, ''iaddr'' \<mapsto> VStr (addr_of (v + off)))"
  using assms by (rule haddrline_click_page)

theorem page_click_selects_witness:
  "msession (haddrline_contextmenu [\<lparr>pe_pchunk = False, pe_id = ''hflag_iaddr'', pe_left = ji 3, pe_width = ji 1\<rparr>,
      \<lparr>pe_pchunk = True, pe_id = ''pchunk_'' @ addr_of 0x8048000, pe_left = ji 40, pe_width = ji 15\<rparr>] (ji 51) w0) ''iaddr''
    = Some (VStr (addr_of 0x8048bbb))"
  using page_click_selects [where wd = 15 and l = 40 and pX = 51 and v = "0x8048000" and w = w0
      and tt = "[\<lparr>pe_pchunk = False, pe_id = ''hflag_iaddr'', pe_left = ji 3, pe_width = ji 1\<rparr>,
        \<lparr>pe_pchunk = True, pe_id = ''pchunk_'' @ addr_of 0x8048000, pe_left = ji 40, pe_width = ji 15\<rparr>]"] by simp

section \<open>The control flow graph\<close>

text \<open>C33. The graph built for a function is right and consistent: its edges are, block by block in
  order, the jumps of the last instruction that are not calls, coloured by their kind; each vertex
  is stored once, the ends of every edge are vertices, and each vertex lists another as a child
  (parent) exactly as often as there are edges to (from) it.\<close>

theorem built_graph_consistent:
  assumes "build_graph blocks new_graph w = (Inr g, w')"
  shows "edges g = concat (map block_edges blocks) \<and> distinct (map fst (vertices g))
    \<and> (\<forall>e \<in> set (edges g). e_from e \<in> fst ` set (vertices g) \<and> e_to e \<in> fst ` set (vertices g))
    \<and> (\<forall>a b. count_list (v_children (vtx (vertices g) a)) b = cnt_edges a b (edges g)
           \<and> count_list (v_parents (vtx (vertices g) b)) a = cnt_edges a b (edges g))"
  using build_graph_building [OF building_new assms] build_graph_edges [OF assms]
  by (simp add: building_def ginv_def new_graph_def)

theorem built_graph_consistent_witness:
  "\<exists>g w'. build_graph [[], [\<lparr>in_address = ''0x10'', in_instruction = None, in_type = None, in_bytes = Some [0x90],
      in_comment = None, in_dests = Some [(''0x20'', 1), (''0x30'', 3)]\<rparr>]] new_graph w0 = (Inr g, w')
    \<and> count_list (v_children (vtx (vertices g) ''0x10'')) ''0x20'' = 1 \<and> length (edges g) = 1"
proof -
  let ?b = "[[], [\<lparr>in_address = ''0x10'', in_instruction = None, in_type = None, in_bytes = Some [0x90],
      in_comment = None, in_dests = Some [(''0x20'', 1), (''0x30'', 3)]\<rparr>]]"
  obtain g w' where g: "build_graph ?b new_graph w0 = (Inr g, w')"
    by (simp add: instruction_html_from_tags_def Let_def)
  have "edges g = [\<lparr>e_from = ''0x10'', e_to = ''0x20'', e_color = ''green'', e_reversed = False\<rparr>]"
    using built_graph_consistent [OF g] by (simp add: block_edges_def edge_color_def)
  then have "length (edges g) = 1" "cnt_edges ''0x10'' ''0x20'' (edges g) = 1" by (simp_all add: cnt_edges_def)
  moreover have "count_list (v_children (vtx (vertices g) ''0x10'')) ''0x20'' = cnt_edges ''0x10'' ''0x20'' (edges g)"
    using built_graph_consistent [OF g] by blast
  ultimately show ?thesis using g by auto
qed

text \<open>C34. Laying out a built graph ends without an exception, in at most 101 levels: each vertex is in
  exactly the level list its level field names, exactly once, and in no other; unless the limit on
  the levels was reached, every vertex from which a sink can be reached has a level, and every edge
  goes down: its source is on a greater level than its target unless the source is the greater
  address.\<close>

theorem levels_consistent:
  assumes "build_graph blocks new_graph w = (Inr g, w')"
  shows "\<exists>g'. assignLevels g = Inr g' \<and> shape (vertices g') = shape (vertices g) \<and> edges g' = edges g
    \<and> length (levels g') \<le> 101
    \<and> (\<forall>a l. l < length (levels g') \<longrightarrow> count_list (levels g' ! l) a = (if lev (vertices g') a = Some l then 1 else 0))
    \<and> (length (levels g') < 101 \<longrightarrow> (\<forall>a. reaches_sink g a \<longrightarrow> (\<exists>l < length (levels g'). lev (vertices g') a = Some l))
      \<and> (\<forall>e \<in> set (edges g). \<forall>l. lev (vertices g') (e_to e) = Some l \<longrightarrow> e_from e \<noteq> e_to e
          \<longrightarrow> \<not> js_lt (ji 0) (bn_cmp (e_from e) (e_to e)) \<longrightarrow> (\<exists>k > l. lev (vertices g') (e_from e) = Some k)))"
  using assignLevels_ok build_graph_building [OF building_new assms] by (simp add: building_def fresh_levels_def)

theorem levels_consistent_witness:
  "\<exists>g w'. build_graph [[\<lparr>in_address = ''0x10'', in_instruction = None, in_type = None, in_bytes = Some [0x90],
      in_comment = None, in_dests = Some [(''0x20'', 1)]\<rparr>]] new_graph w0 = (Inr g, w')
    \<and> (\<exists>g'. assignLevels g = Inr g')"
proof -
  let ?b = "[[\<lparr>in_address = ''0x10'', in_instruction = None, in_type = None, in_bytes = Some [0x90],
      in_comment = None, in_dests = Some [(''0x20'', 1)]\<rparr>]]"
  obtain g w' where g: "build_graph ?b new_graph w0 = (Inr g, w')"
    by (simp add: instruction_html_from_tags_def Let_def)
  with levels_consistent [OF g] show ?thesis by blast
qed

text \<open>C35. Showing another graph and coming back puts the box of the first one where it was: its
  margins in whole pixels are the same strings as before.\<close>

theorem graph_box_reopened:
  assumes "gbox_dom gv = Some b" and "gb_class b = join_keys (vertices g)"
    and "gb_left b = int_to_string 10 x @ ''px''" and "safe x"
    and "gb_top b = int_to_string 10 y @ ''px''" and "safe y"
    and "join_keys (vertices h) \<noteq> join_keys (vertices g)"
  shows "\<exists>b'. gbox_dom (open_box g (open_box h gv)) = Some b' \<and> gb_left b' = gb_left b \<and> gb_top b' = gb_top b"
  using assms by (rule reopened_box)

theorem graph_box_reopened_witness:
  "\<exists>b'. gbox_dom (open_box new_graph (open_box (addVertex ''0x10'' None new_graph)
      \<lparr>cfg_panel = True, gPos = [], gbox_dom = Some \<lparr>gb_class = [], gb_left = ''-12px'', gb_top = ''40px'', gb_size = None, gb_edges = [], gb_blocks = []\<rparr>\<rparr>))
    = Some b' \<and> gb_left b' = ''-12px''"
proof -
  let ?b = "\<lparr>gb_class = [], gb_left = ''-12px'', gb_top = ''40px'', gb_size = None, gb_edges = [], gb_blocks = []\<rparr>"
  have "gb_left ?b = int_to_string 10 (- 12) @ ''px''" "gb_top ?b = int_to_string 10 40 @ ''px''"
    by (simp_all add: int_to_string_def digits.simps)
  from graph_box_reopened [of "\<lparr>cfg_panel = True, gPos = [], gbox_dom = Some ?b\<rparr>" ?b new_graph, OF _ _ this(1) _ this(2), of "addVertex ''0x10'' None new_graph"]
  show ?thesis by (auto simp: join_keys_def new_graph_def addVertex_def safe_def)
qed

section \<open>Memory and instructions\<close>

text \<open>C36. The word shown at an offset is the canonical address of the number its bytes denote in the
  byte order of the target (or \<open>0x\<close> for zero).\<close>

theorem memory_word_value:
  assumes "\<forall>j < mm_ptrsize msg. f j < 256 \<and> mm_dat msg (i + j) = Some (f j)"
    and "v = (\<Sum>j < mm_ptrsize msg. f j * 256 ^ (if mm_big_endian msg then mm_ptrsize msg - 1 - j else j))"
  shows "mem_word msg i = (if v = 0 then ''0x'' else addr_of v)"
  using assms by (rule mem_word_val)

theorem memory_word_value_witness:
  "mem_word \<lparr>mm_address = ''0x1000'', mm_len = 4, mm_ptrsize = 4, mm_big_endian = False, mm_dat = (\<lambda>_. Some 1)\<rparr> 0
    = addr_of 0x1010101"
proof -
  have "{..<4::nat} = {0, 1, 2, 3}" by auto
  then have v: "(\<Sum>j<4. 1 * 256 ^ j) = (0x1010101::nat)" by simp
  show ?thesis
    using memory_word_value [of "\<lparr>mm_address = ''0x1000'', mm_len = 4, mm_ptrsize = 4, mm_big_endian = False, mm_dat = (\<lambda>_. Some 1)\<rparr>"
        "\<lambda>_. 1" 0 "0x1010101"] v by simp
qed

text \<open>C37. The memory view is drawn to the end: for a positive pointer size and a known memory map the
  loop ends, no exception is raised, and every word of the message has a cell with its address.\<close>

theorem memory_view_complete:
  assumes "0 < mm_ptrsize msg" and "plain_pmaps w" and "mtrack w = None"
  shows "snd (on_memory msg w) = None
    \<and> (\<forall>k. k * mm_ptrsize msg < mm_len msg \<longrightarrow>
         cell_id msg (k * mm_ptrsize msg) \<in> fst ` set (mem_cells (fst (on_memory msg w))))"
  using assms by (rule on_memory_ok)

theorem memory_view_complete_witness:
  "snd (on_memory \<lparr>mm_address = ''0x1000'', mm_len = 8, mm_ptrsize = 4, mm_big_endian = False, mm_dat = (\<lambda>_. None)\<rparr>
     (w0\<lparr>msession := [''pmaps'' \<mapsto> VPmaps []]\<rparr>)) = None"
  using memory_view_complete [of "\<lparr>mm_address = ''0x1000'', mm_len = 8, mm_ptrsize = 4, mm_big_endian = False, mm_dat = (\<lambda>_. None)\<rparr>"
      "w0\<lparr>msession := [''pmaps'' \<mapsto> VPmaps []]\<rparr>"] by (simp add: plain_pmaps_def)

text \<open>C38. The list of executed instructions selects the address: if it is drawn without an exception
  and exactly one of its instructions is the one of the selected change, the address of that
  instruction becomes the selected address and the address of the static view, and no other
  session key changes.\<close>

theorem instructions_select_address:
  assumes "msession w ''clnum'' = Some (VNum (ji c))" and "di_clnum i = ji c"
    and "\<forall>j \<in> set before \<union> set later. di_clnum j \<noteq> ji c"
    and "snd (on_instructions (before @ i # later) w) = None"
  shows "msession (fst (on_instructions (before @ i # later) w))
    = (msession w)(''iaddr'' \<mapsto> VStr (di_address i), ''iview'' \<mapsto> VStr (di_address i))"
  using assms by (rule on_instructions_selects)

theorem instructions_select_address_witness:
  "msession (fst (on_instructions [\<lparr>di_clnum = ji 6, di_address = ''0x8'', di_instruction = None, di_comment = None, di_depth = ji 0, di_slice = False\<rparr>,
       \<lparr>di_clnum = ji 7, di_address = ''0xc'', di_instruction = None, di_comment = None, di_depth = ji 0, di_slice = True\<rparr>]
     (w0\<lparr>msession := [''clnum'' \<mapsto> VNum (ji 7)]\<rparr>))) ''iaddr'' = Some (VStr ''0xc'')"
proof -
  let ?i = "\<lparr>di_clnum = ji 6, di_address = ''0x8'', di_instruction = None, di_comment = None, di_depth = ji 0, di_slice = False\<rparr>"
  let ?j = "\<lparr>di_clnum = ji 7, di_address = ''0xc'', di_instruction = None, di_comment = None, di_depth = ji 0, di_slice = True\<rparr>"
  let ?w = "w0\<lparr>msession := [''clnum'' \<mapsto> VNum (ji 7)]\<rparr>"
  have "snd (on_instructions [?i, ?j] ?w) = None"
    by (simp add: on_instructions_def highlight_instruction_def session_get_def Let_def)
  with instructions_select_address [of ?w 7 ?j "[?i]" "[]"] show ?thesis by simp
qed

text \<open>C39. A connection to IDA: of the addresses sent while it is being set up, only the first one, which
  asked for the connection, arrives, when the socket opens; from then on every address arrives, in
  order.\<close>

theorem ida_gets_first_address:
  assumes "ws_st w = WS_Undefined \<or> ws_st w = WS_Closed"
  shows "ws_sent (fold do_ida_socket cs (do_ida_socket c w)) = ws_sent w
    \<and> ws_st (ws_open (fold do_ida_socket cs (do_ida_socket c w))) = WS_Open
    \<and> ws_sent (fold do_ida_socket ds (ws_open (fold do_ida_socket cs (do_ida_socket c w)))) = ws_sent w @ c # ds"
  using assms by (rule ida_connection)

theorem ida_gets_first_address_witness:
  "ws_sent (ws_open (do_ida_socket ''setaddress 0x20'' (do_ida_socket ''setaddress 0x10'' w0))) = [''setaddress 0x10'']"
  using ida_gets_first_address [of w0 "[''setaddress 0x20'']" "''setaddress 0x10''" "[]"] by simp

section \<open>Loading the scripts\<close>

text \<open>C40. Whatever the order in which the panels are created: the scripts are loaded once, exactly
  when the ready handler has ended and the four awaited panels exist, and then the elements that
  the scripts use without a check when they start are on the page and every panel has its settings. The element of the control flow
  graph never is: its panel is registered but not added.\<close>

theorem scripts_loaded_once:
  assumes "ui_reachable u"
  shows "loads u = (if length panel_layout < ui_pc u \<and> set awaited \<subseteq> set (created u) then [scripts] else [])
    \<and> (loads u \<noteq> [] \<longrightarrow> (\<forall>(s, i) \<in> set script_needs. i \<in> set (elements u))
        \<and> (\<forall>x \<in> set awaited. \<forall>d \<in> set panel_defaults. (x, d) \<in> set (settings u)))
    \<and> ''cfg-static'' \<notin> set (elements u)"
  using scripts_loaded [OF assms] no_cfg_static [OF assms] defaults_before_scripts [OF assms] by blast

theorem scripts_loaded_once_witness:
  "loads (on_create P_Timeline ((ready_step page)\<lparr>created := [P_Timeline]\<rparr>)) = []"
proof -
  have 1: "ui_reachable (ready_step page)" by (rule ui_ready [OF ui_start]) (simp add: page_def)
  have a: "P_Timeline \<in> fst ` set (added (ready_step page))" "created (ready_step page) = []"
    by (simp_all add: ready_step_def page_def panel_layout_def)
  have 2: "ui_reachable (on_create P_Timeline ((ready_step page)\<lparr>created := [P_Timeline]\<rparr>))"
    using ui_create [OF 1 a(1)] a(2) by simp
  have "\<not> set awaited \<subseteq> {P_Timeline}" by (simp add: awaited_def)
  moreover have "created (on_create P_Timeline ((ready_step page)\<lparr>created := [P_Timeline]\<rparr>)) = [P_Timeline]"
    by (simp add: on_create_def resolve_def)
  ultimately show ?thesis using scripts_loaded_once [OF 2] by simp
qed

end
